theory Spec2Isabelle
  imports Complex_Main "HOL-Library.Sublist"
begin

section \<open>Python strings\<close>

text \<open>
  A Python \<^verbatim>\<open>str\<close> is a sequence of Unicode code points; it is modelled as a list of
  natural numbers, one per code point. The Arabic literals of \<^verbatim>\<open>main.py\<close> are written
  as lists of hexadecimal code points, ASCII literals through \<open>ascii\<close>.
\<close>

type_synonym pystr = "nat list"

definition ascii :: "string \<Rightarrow> pystr" where
  "ascii s = map of_char s"

text \<open>\<^verbatim>\<open>needle in haystack\<close> on strings: the needle starts at some position.\<close>

fun str_in :: "pystr \<Rightarrow> pystr \<Rightarrow> bool" where
  "str_in needle [] = (needle = [])"
| "str_in needle (c # cs) = (prefix needle (c # cs) \<or> str_in needle cs)"

text \<open>
  \<^verbatim>\<open>str.lower()\<close>. CPython lowers a string of ASCII code points one code point at a
  time (A..Z to a..z). Any other string goes through the case mapping of the Unicode
  character database, which is not part of the repository: it is the parameter \<open>ucd\<close>.
\<close>

definition ascii_lower :: "nat \<Rightarrow> nat" where
  "ascii_lower c = (if 0x41 \<le> c \<and> c \<le> 0x5A then c + 0x20 else c)"

definition str_lower :: "(pystr \<Rightarrow> pystr) \<Rightarrow> pystr \<Rightarrow> pystr" where
  "str_lower ucd s = (if list_all (\<lambda>c. c < 0x80) s then map ascii_lower s else ucd s)"

text \<open>
  \<^verbatim>\<open>str.strip()\<close> with no argument removes leading and trailing whitespace;
  \<open>py_isspace\<close> is the set of code points CPython treats as whitespace.
\<close>

definition py_isspace :: "nat \<Rightarrow> bool" where
  "py_isspace c =
     ((0x09 \<le> c \<and> c \<le> 0x0D) \<or> (0x1C \<le> c \<and> c \<le> 0x1F) \<or> c = 0x20 \<or> c = 0x85 \<or>
      c = 0xA0 \<or> c = 0x1680 \<or> (0x2000 \<le> c \<and> c \<le> 0x200A) \<or> c = 0x2028 \<or>
      c = 0x2029 \<or> c = 0x202F \<or> c = 0x205F \<or> c = 0x3000)"

definition str_strip :: "pystr \<Rightarrow> pystr" where
  "str_strip s = rev (dropWhile py_isspace (rev (dropWhile py_isspace s)))"

text \<open>Truthiness of a value that is \<^verbatim>\<open>None\<close> or a string.\<close>

definition truthy :: "pystr option \<Rightarrow> bool" where
  "truthy v = (case v of None \<Rightarrow> False | Some s \<Rightarrow> s \<noteq> [])"

section \<open>Exceptions, console and collaborators\<close>

datatype exn = KeyError pystr | IndexError | TypeError | EOFError | KeyboardInterrupt

text \<open>
  What the user does at one call of \<^verbatim>\<open>input()\<close>: types a line, presses Ctrl-C, or
  closes the input. The console of a run is the list of these, in order; a call that
  finds the list empty blocks.
\<close>

datatype console_event = Typed pystr | CtrlC | EndOfInput

datatype 'a outcome = Returns 'a | Raises exn | Blocks

definition py_input :: "console_event list \<Rightarrow> pystr outcome \<times> console_event list" where
  "py_input con =
     (case con of
        [] \<Rightarrow> (Blocks, [])
      | Typed line # rest \<Rightarrow> (Returns line, rest)
      | CtrlC # rest \<Rightarrow> (Raises KeyboardInterrupt, rest)
      | EndOfInput # rest \<Rightarrow> (Raises EOFError, rest))"

text \<open>
  The request sent to the Google backend. The language code, the gender and the audio
  encoding are the same in every call and are left out.
\<close>

record synthesis_request =
  req_text :: pystr
  voice_name :: pystr
  speaking_rate :: rat
  pitch :: int

text \<open>
  The trace of a run: each call of a collaborator and each console prompt, in order.
  The boolean of a backend event says whether the call succeeded.
\<close>

datatype prompt = EnterText | WasGood | EnterCorrect

datatype event =
    RecordAudio bool
  | Transcribe
  | UserVoice pystr pystr
  | UserText pystr pystr
  | Prompt prompt
  | PleaseEnter
  | Classify pystr
  | GoogleTTS synthesis_request bool
  | GTTS pystr bool
  | SfRead "pystr option"
  | Play
  | Report nat

section \<open>The class MKAI\<close>

record feedback =
  fb_timestamp :: nat
  fb_input :: pystr
  fb_response :: pystr
  fb_correction :: pystr

text \<open>
  The fields of the object that the methods read or write. \<open>tts_client\<close> says
  whether a client object is there (it is \<^verbatim>\<open>None\<close> otherwise).
\<close>

record mkai =
  use_google_tts :: bool
  tts_client :: bool
  feedback_db :: "feedback list"

text \<open>
  \<^verbatim>\<open>__init__\<close>: the credentials file is there or not, and building the client works
  or raises.
\<close>

definition init :: "bool \<Rightarrow> bool \<Rightarrow> mkai" where
  "init cred_exists client_ok =
     (if cred_exists then
        (if client_ok then \<lparr>use_google_tts = True, tts_client = True, feedback_db = []\<rparr>
         else \<lparr>use_google_tts = False, tts_client = False, feedback_db = []\<rparr>)
      else \<lparr>use_google_tts = False, tts_client = False, feedback_db = []\<rparr>)"

subsection \<open>Dialect detection\<close>

text \<open>
  \<^verbatim>\<open>self.dialect_map\<close>, in insertion order (a Python dict iterates in that order):
  egyptian, gulf, levantine.
\<close>

definition dialect_map :: "(pystr \<times> pystr list) list" where
  "dialect_map =
     [(ascii ''egyptian'',
         [[0x645, 0x634],
          [0x647, 0x639, 0x645, 0x644],
          [0x639, 0x627, 0x648, 0x632]]),
      (ascii ''gulf'',
         [[0x634, 0x644, 0x648, 0x646, 0x643],
          [0x648, 0x64A, 0x646, 0x643],
          [0x627, 0x628, 0x634, 0x631]]),
      (ascii ''levantine'',
         [[0x634, 0x648, 0x20, 0x623, 0x62E, 0x628, 0x627, 0x631, 0x643],
          [0x645, 0x634, 0x627, 0x646, 0x20, 0x627, 0x644, 0x644, 0x647],
          [0x64A, 0x645, 0x627]])]"

text \<open>The \<^verbatim>\<open>for\<close> loop of \<^verbatim>\<open>detect_dialect\<close> over the items of a lexicon.\<close>

fun detect_dialect_loop :: "(pystr \<times> pystr list) list \<Rightarrow> pystr \<Rightarrow> pystr" where
  "detect_dialect_loop [] txt = ascii ''msa''"
| "detect_dialect_loop ((dialect, keywords) # items) txt =
     (if list_ex (\<lambda>keyword. str_in keyword txt) keywords then dialect
      else detect_dialect_loop items txt)"

definition detect_dialect :: "pystr \<Rightarrow> pystr" where
  "detect_dialect txt = detect_dialect_loop dialect_map txt"

text \<open>
  A text matches a dialect of the lexicon when one of the dialect's keywords occurs in
  it as a substring (a predicate for the statements, not part of the program).
\<close>

definition has_keyword :: "pystr \<Rightarrow> pystr \<Rightarrow> bool" where
  "has_keyword dialect txt =
     (case map_of dialect_map dialect of
        None \<Rightarrow> False
      | Some ks \<Rightarrow> \<exists>k \<in> set ks. sublist k txt)"

text \<open>
  \<^verbatim>\<open>speech_to_text\<close>. The transcript is what the recognition model returns for the
  recording; \<open>dediac\<close> is \<^verbatim>\<open>camel_tools.utils.dediac.dediac_ar\<close>, a library function
  taken as a parameter.
\<close>

definition speech_to_text :: "(pystr \<Rightarrow> pystr) \<Rightarrow> pystr \<Rightarrow> pystr \<times> pystr" where
  "speech_to_text dediac transcript =
     (let txt = transcript;
          dialect = detect_dialect txt
      in (dediac txt, dialect))"

text \<open>
  Modelled from the spec: \<^verbatim>\<open>dediac_ar\<close> is a function of the library camel_tools and
  is not in the repository. The spec describes it as the removal of Arabic vowel and
  pronunciation marks: here the code points U+064B to U+0652 (tanwin, fatha, damma,
  kasra, shadda, sukun) and U+0670 (superscript alef). It only instantiates the
  parameter \<open>dediac\<close> at concrete inputs.
\<close>

definition dediac_ar :: "pystr \<Rightarrow> pystr" where
  "dediac_ar s = filter (\<lambda>c. \<not> ((0x64B \<le> c \<and> c \<le> 0x652) \<or> c = 0x670)) s"

subsection \<open>Response selection\<close>

text \<open>The dict literal \<^verbatim>\<open>responses\<close> of \<^verbatim>\<open>generate_response\<close>; its keys are distinct.\<close>

definition responses :: "(pystr \<times> pystr list) list" where
  "responses =
     [(ascii ''positive'',
         [[0x623, 0x645, 0x631, 0x20, 0x631, 0x627, 0x626, 0x639, 0x21, 0x20, 0x647, 0x644,
           0x20, 0x62A, 0x631, 0x64A, 0x62F, 0x20, 0x627, 0x644, 0x645, 0x632, 0x64A, 0x62F,
           0x20, 0x645, 0x646, 0x20, 0x627, 0x644, 0x645, 0x633, 0x627, 0x639, 0x62F, 0x629,
           0x61F],
          [0x647, 0x630, 0x627, 0x20, 0x645, 0x645, 0x62A, 0x639, 0x21, 0x20, 0x645, 0x627,
           0x630, 0x627, 0x20, 0x62A, 0x631, 0x64A, 0x62F, 0x20, 0x623, 0x646, 0x20, 0x62A,
           0x641, 0x639, 0x644, 0x20, 0x628, 0x639, 0x62F, 0x20, 0x630, 0x644, 0x643, 0x61F]]),
      (ascii ''negative'',
         [[0x623, 0x646, 0x627, 0x20, 0x622, 0x633, 0x641, 0x20, 0x644, 0x633, 0x645, 0x627,
           0x639, 0x20, 0x630, 0x644, 0x643, 0x2E, 0x20, 0x647, 0x644, 0x20, 0x62A, 0x631,
           0x64A, 0x62F, 0x20, 0x627, 0x644, 0x62A, 0x62D, 0x62F, 0x62B, 0x20, 0x623, 0x643,
           0x62B, 0x631, 0x61F],
          [0x64A, 0x628, 0x62F, 0x648, 0x20, 0x623, 0x646, 0x20, 0x647, 0x630, 0x627, 0x20,
           0x635, 0x639, 0x628, 0x2E, 0x20, 0x643, 0x64A, 0x641, 0x20, 0x64A, 0x645, 0x643,
           0x646, 0x646, 0x64A, 0x20, 0x627, 0x644, 0x645, 0x633, 0x627, 0x639, 0x62F, 0x629,
           0x61F]]),
      (ascii ''neutral'',
         [[0x641, 0x647, 0x645, 0x62A, 0x2E, 0x20, 0x645, 0x627, 0x630, 0x627, 0x20, 0x62A,
           0x631, 0x64A, 0x62F, 0x20, 0x623, 0x646, 0x20, 0x62A, 0x641, 0x639, 0x644, 0x20,
           0x627, 0x644, 0x622, 0x646, 0x61F],
          [0x62D, 0x633, 0x646, 0x64B, 0x627, 0x60C, 0x20, 0x645, 0x627, 0x20, 0x627, 0x644,
           0x62E, 0x637, 0x648, 0x629, 0x20, 0x627, 0x644, 0x62A, 0x627, 0x644, 0x64A, 0x629,
           0x61F]])]"

text \<open>
  \<^verbatim>\<open>responses[emotion][0]\<close>: a missing key raises \<^verbatim>\<open>KeyError\<close>, an empty list
  \<^verbatim>\<open>IndexError\<close>. The argument \<^verbatim>\<open>text\<close> is not used.
\<close>

definition generate_response :: "pystr \<Rightarrow> pystr \<Rightarrow> exn + pystr" where
  "generate_response txt emotion =
     (case map_of responses emotion of
        None \<Rightarrow> Inl (KeyError emotion)
      | Some candidates \<Rightarrow>
          (case candidates of
             [] \<Rightarrow> Inl IndexError
           | first # others \<Rightarrow> Inr first))"

subsection \<open>Speech synthesis\<close>

definition google_request :: "pystr \<Rightarrow> pystr \<Rightarrow> synthesis_request" where
  "google_request txt emotion =
     \<lparr>req_text = txt,
      voice_name = (if emotion = ascii ''positive'' then ascii ''ar-XA-Standard-B''
                    else ascii ''ar-XA-Standard-D''),
      speaking_rate = (if emotion = ascii ''happy'' then 12 / 10 else 1),
      pitch = (if emotion = ascii ''excited'' then 2 else 0)\<rparr>"

text \<open>The second \<^verbatim>\<open>try\<close> block of \<^verbatim>\<open>text_to_speech\<close>: gTTS, after the events \<open>ev\<close>.\<close>

definition gtts_fallback ::
  "mkai \<Rightarrow> bool \<Rightarrow> pystr \<Rightarrow> event list \<Rightarrow> pystr option \<times> mkai \<times> event list" where
  "gtts_fallback s gtts_ok txt ev =
     (if gtts_ok then (Some (ascii ''response.mp3''), s, ev @ [GTTS txt True])
      else (None, s, ev @ [GTTS txt False]))"

text \<open>
  \<^verbatim>\<open>text_to_speech\<close>. \<open>google_ok\<close> and \<open>gtts_ok\<close> say whether a call of the
  Google backend, and of gTTS, would succeed now (\<open>False\<close>: it raises an
  \<^verbatim>\<open>Exception\<close>).
\<close>

definition text_to_speech ::
  "mkai \<Rightarrow> bool \<Rightarrow> bool \<Rightarrow> pystr \<Rightarrow> pystr \<Rightarrow> pystr option \<times> mkai \<times> event list" where
  "text_to_speech s google_ok gtts_ok txt emotion =
     (if use_google_tts s \<and> tts_client s then
        (if google_ok then
           (Some (ascii ''response.mp3''), s, [GoogleTTS (google_request txt emotion) True])
         else
           gtts_fallback (s\<lparr>use_google_tts := False\<rparr>) gtts_ok txt
             [GoogleTTS (google_request txt emotion) False])
      else gtts_fallback s gtts_ok txt [])"

subsection \<open>Feedback, recording, text entry\<close>

definition save_feedback :: "mkai \<Rightarrow> nat \<Rightarrow> pystr \<Rightarrow> pystr \<Rightarrow> pystr \<Rightarrow> mkai" where
  "save_feedback s now user_input bot_response correction =
     s\<lparr>feedback_db := feedback_db s @
         [\<lparr>fb_timestamp = now, fb_input = user_input, fb_response = bot_response,
           fb_correction = correction\<rparr>]\<rparr>"

text \<open>\<^verbatim>\<open>record_audio\<close>: the path of the recording, or \<^verbatim>\<open>None\<close> when capture raised.\<close>

definition record_audio :: "bool \<Rightarrow> pystr option" where
  "record_audio capture_works = (if capture_works then Some (ascii ''input.wav'') else None)"

text \<open>
  \<^verbatim>\<open>get_text_input\<close>: the \<^verbatim>\<open>while True\<close> loop reads the console until it returns.
  It returns the pair, the rest of the console and its trace.
\<close>

fun get_text_input ::
  "(pystr \<Rightarrow> pystr) \<Rightarrow> console_event list \<Rightarrow>
     (pystr option \<times> pystr option) outcome \<times> console_event list \<times> event list" where
  "get_text_input ucd [] = (Blocks, [], [Prompt EnterText])"
| "get_text_input ucd (Typed line # con) =
     (if str_lower ucd line = ascii ''exit'' then (Returns (None, None), con, [Prompt EnterText])
      else if str_strip line \<noteq> [] then
        (Returns (Some line, Some (ascii ''msa'')), con, [Prompt EnterText])
      else
        (case get_text_input ucd con of
           (r, con', ev) \<Rightarrow> (r, con', Prompt EnterText # PleaseEnter # ev)))"
| "get_text_input ucd (CtrlC # con) = (Returns (None, None), con, [Prompt EnterText])"
| "get_text_input ucd (EndOfInput # con) = (Raises EOFError, con, [Prompt EnterText])"

section \<open>The main loop\<close>

text \<open>
  What the collaborators do in one turn of the loop: whether audio capture works, the
  transcript of the recording, the label of the sentiment classifier, whether each
  synthesis backend works, and the clock. The calls that the code does not guard and
  that the scripts do not cover (the recognition model, the classifier, reading and
  playing a file that was just written) are taken to return, and Ctrl-C to arrive while
  the program waits at a console prompt.
\<close>

record turn_script =
  mic_works :: bool
  whisper_text :: pystr
  sentiment_label :: pystr
  google_works :: bool
  gtts_works :: bool
  clock_now :: nat

datatype status = Looping | Exited | Interrupted | Crashed exn | Blocked

text \<open>
  An exception that leaves the loop body: \<^verbatim>\<open>KeyboardInterrupt\<close> is caught by the
  handler around the loop, any other ends the program.
\<close>

definition stopped :: "exn \<Rightarrow> status" where
  "stopped e = (if e = KeyboardInterrupt then Interrupted else Crashed e)"

text \<open>
  \<^verbatim>\<open>sf.read\<close>, a function of the library soundfile: it returns the audio of a file
  given by its path and raises \<^verbatim>\<open>TypeError\<close> for a file that is \<^verbatim>\<open>None\<close>. The audio
  itself is not modelled.
\<close>

definition sf_read :: "pystr option \<Rightarrow> exn + unit" where
  "sf_read file = (case file of None \<Rightarrow> Inl TypeError | Some path \<Rightarrow> Inr ())"

text \<open>The feedback prompt and what follows it (the last lines of the loop body).\<close>

definition get_feedback ::
  "(pystr \<Rightarrow> pystr) \<Rightarrow> mkai \<Rightarrow> nat \<Rightarrow> pystr \<Rightarrow> pystr \<Rightarrow> console_event list \<Rightarrow>
     status \<times> mkai \<times> console_event list \<times> event list" where
  "get_feedback ucd s clock txt response con =
     (case py_input con of
        (Blocks, con1) \<Rightarrow> (Blocked, s, con1, [Prompt WasGood])
      | (Raises e, con1) \<Rightarrow> (stopped e, s, con1, [Prompt WasGood])
      | (Returns line, con1) \<Rightarrow>
          (let feedback = str_lower ucd line in
           if feedback \<noteq> ascii ''y'' then
             (case py_input con1 of
                (Blocks, con2) \<Rightarrow> (Blocked, s, con2, [Prompt WasGood, Prompt EnterCorrect])
              | (Raises e, con2) \<Rightarrow> (stopped e, s, con2, [Prompt WasGood, Prompt EnterCorrect])
              | (Returns correction, con2) \<Rightarrow>
                  (Looping, save_feedback s clock txt response correction, con2,
                   [Prompt WasGood, Prompt EnterCorrect]))
           else (Looping, s, con1, [Prompt WasGood])))"

text \<open>The loop body from the emotion analysis on, for the text of the turn.\<close>

definition respond ::
  "(pystr \<Rightarrow> pystr) \<Rightarrow> mkai \<Rightarrow> turn_script \<Rightarrow> pystr \<Rightarrow> console_event list \<Rightarrow>
     status \<times> mkai \<times> console_event list \<times> event list" where
  "respond ucd s sc txt con =
     (let emotion = sentiment_label sc in
      case generate_response txt emotion of
        Inl e \<Rightarrow> (stopped e, s, con, [Classify txt])
      | Inr response \<Rightarrow>
          (case text_to_speech s (google_works sc) (gtts_works sc) response emotion of
             (response_audio, s1, ev) \<Rightarrow>
               (case sf_read response_audio of
                  Inl e \<Rightarrow> (stopped e, s1, con, Classify txt # ev @ [SfRead response_audio])
                | Inr audio \<Rightarrow>
                    (case get_feedback ucd s1 (clock_now sc) txt response con of
                       (st, s2, con2, ev2) \<Rightarrow>
                         (st, s2, con2,
                          Classify txt # ev @ [SfRead response_audio, Play] @ ev2)))))"

text \<open>One pass through the body of \<^verbatim>\<open>while True\<close>.\<close>

definition turn ::
  "(pystr \<Rightarrow> pystr) \<Rightarrow> (pystr \<Rightarrow> pystr) \<Rightarrow> mkai \<Rightarrow> turn_script \<Rightarrow> console_event list \<Rightarrow>
     status \<times> mkai \<times> console_event list \<times> event list" where
  "turn ucd dediac s sc con =
     (let audio_path = record_audio (mic_works sc) in
      if truthy audio_path then
        (case speech_to_text dediac (whisper_text sc) of
           (txt, dialect) \<Rightarrow>
             (case respond ucd s sc txt con of
                (st, s', con', ev) \<Rightarrow>
                  (st, s', con', RecordAudio True # Transcribe # UserVoice txt dialect # ev)))
      else
        (case get_text_input ucd con of
           (Blocks, con1, ev1) \<Rightarrow> (Blocked, s, con1, RecordAudio False # ev1)
         | (Raises e, con1, ev1) \<Rightarrow> (stopped e, s, con1, RecordAudio False # ev1)
         | (Returns (None, dialect), con1, ev1) \<Rightarrow> (Exited, s, con1, RecordAudio False # ev1)
         | (Returns (Some txt, dialect), con1, ev1) \<Rightarrow>
             (case respond ucd s sc txt con1 of
                (st, s', con', ev) \<Rightarrow>
                  (st, s', con',
                   RecordAudio False # ev1 @ UserText txt (case dialect of Some d \<Rightarrow> d | None \<Rightarrow> [])
                     # ev))))"

text \<open>
  The loop, for as many turns as there are scripts: \<open>Looping\<close> at the end says that
  the loop is still running. The handler of \<^verbatim>\<open>KeyboardInterrupt\<close> reports the number
  of feedback entries.
\<close>

fun session ::
  "(pystr \<Rightarrow> pystr) \<Rightarrow> (pystr \<Rightarrow> pystr) \<Rightarrow> mkai \<Rightarrow> turn_script list \<Rightarrow> console_event list \<Rightarrow>
     status \<times> mkai \<times> console_event list \<times> event list" where
  "session ucd dediac s [] con = (Looping, s, con, [])"
| "session ucd dediac s (sc # scs) con =
     (case turn ucd dediac s sc con of
        (Looping, s1, con1, ev) \<Rightarrow>
          (case session ucd dediac s1 scs con1 of
             (st, s2, con2, ev2) \<Rightarrow> (st, s2, con2, ev @ ev2))
      | (Interrupted, s1, con1, ev) \<Rightarrow>
          (Interrupted, s1, con1, ev @ [Report (length (feedback_db s1))])
      | (st, s1, con1, ev) \<Rightarrow> (st, s1, con1, ev))"

text \<open>
  Readers for the statements: the state and the trace a run ends with, and the events
  that are calls of the Google backend.
\<close>

definition state_after :: "status \<times> mkai \<times> console_event list \<times> event list \<Rightarrow> mkai" where
  "state_after r = fst (snd r)"

definition trace_of :: "status \<times> mkai \<times> console_event list \<times> event list \<Rightarrow> event list" where
  "trace_of r = snd (snd (snd r))"

definition is_google :: "event \<Rightarrow> bool" where
  "is_google e = (case e of GoogleTTS req ok \<Rightarrow> True | _ \<Rightarrow> False)"

text \<open>
  Inputs for the concrete runs below. On a string of ASCII characters \<open>str_lower\<close>
  does not consult the Unicode database, so any function can stand for it there:
  \<open>ucd_id\<close>. \<open>neutral_reply\<close> is the first reply of the table for \<^verbatim>\<open>'neutral'\<close>;
  \<open>sample_turn\<close> is a turn whose classifier answers \<^verbatim>\<open>'neutral'\<close>.
\<close>

definition ucd_id :: "pystr \<Rightarrow> pystr" where
  "ucd_id s = s"

definition neutral_reply :: pystr where
  "neutral_reply =
     [0x641, 0x647, 0x645, 0x62A, 0x2E, 0x20, 0x645, 0x627, 0x630, 0x627, 0x20, 0x62A,
      0x631, 0x64A, 0x62F, 0x20, 0x623, 0x646, 0x20, 0x62A, 0x641, 0x639, 0x644, 0x20,
      0x627, 0x644, 0x622, 0x646, 0x61F]"

definition sample_turn :: "bool \<Rightarrow> pystr \<Rightarrow> bool \<Rightarrow> bool \<Rightarrow> turn_script" where
  "sample_turn mic heard google gtts =
     \<lparr>mic_works = mic, whisper_text = heard, sentiment_label = ascii ''neutral'',
      google_works = google, gtts_works = gtts, clock_now = 1\<rparr>"

section \<open>Dialect detection: lemmas\<close>

lemma str_in_sublist: "str_in needle hay = sublist needle hay"
  by (induction hay) (auto simp: sublist_Cons_right)

lemma sublist_eval: "sublist needle hay = str_in needle hay"
  by (simp add: str_in_sublist)

lemma detect_dialect_loop_none:
  "\<forall>(d, ks) \<in> set items. \<forall>k \<in> set ks. \<not> sublist k txt \<Longrightarrow>
   detect_dialect_loop items txt = ascii ''msa''"
  by (induction items "txt" rule: detect_dialect_loop.induct)
     (auto simp: list_ex_iff str_in_sublist)

lemma detect_dialect_loop_first:
  "\<exists>(d, ks) \<in> set items. \<exists>k \<in> set ks. sublist k t \<Longrightarrow>
   \<exists>before d ks after. items = before @ (d, ks) # after \<and>
      (\<forall>(d', ks') \<in> set before. \<forall>k \<in> set ks'. \<not> sublist k t) \<and>
      (\<exists>k \<in> set ks. sublist k t) \<and> detect_dialect_loop items t = d"
proof (induction items t rule: detect_dialect_loop.induct)
  case (1 t)
  then show ?case by simp
next
  case (2 dialect kws items t)
  show ?case
  proof (cases "list_ex (\<lambda>kw. str_in kw t) kws")
    case True
    then have "\<exists>k \<in> set kws. sublist k t"
      by (simp add: list_ex_iff str_in_sublist)
    with True have
      "(dialect, kws) # items = [] @ (dialect, kws) # items \<and>
       (\<forall>(d', ks') \<in> set []. \<forall>k \<in> set ks'. \<not> sublist k t) \<and>
       (\<exists>k \<in> set kws. sublist k t) \<and>
       detect_dialect_loop ((dialect, kws) # items) t = dialect"
      by simp
    then show ?thesis
      by (rule_tac x = "[]" in exI, rule_tac x = dialect in exI,
          rule_tac x = kws in exI, rule_tac x = items in exI)
  next
    case False
    then have none: "\<forall>k \<in> set kws. \<not> sublist k t"
      by (simp add: list_ex_iff str_in_sublist)
    with "2.prems" have "\<exists>(d, ks) \<in> set items. \<exists>k \<in> set ks. sublist k t"
      by auto
    with "2.IH" False obtain before d ks after where
      dec: "items = before @ (d, ks) # after"
      and bef: "\<forall>(d', ks') \<in> set before. \<forall>k \<in> set ks'. \<not> sublist k t"
      and hit: "\<exists>k \<in> set ks. sublist k t"
      and res: "detect_dialect_loop items t = d"
      by blast
    from dec bef none hit res False have
      "(dialect, kws) # items = ((dialect, kws) # before) @ (d, ks) # after \<and>
       (\<forall>(d', ks') \<in> set ((dialect, kws) # before). \<forall>k \<in> set ks'. \<not> sublist k t) \<and>
       (\<exists>k \<in> set ks. sublist k t) \<and>
       detect_dialect_loop ((dialect, kws) # items) t = d"
      by simp
    then show ?thesis
      by (rule_tac x = "(dialect, kws) # before" in exI, rule_tac x = d in exI,
          rule_tac x = ks in exI, rule_tac x = after in exI)
  qed
qed

text \<open>
  Claim C4. \<open>detect_dialect\<close> is a function of the text alone. When some keyword of
  some dialect of the lexicon occurs in the text as a substring, the result is the first
  dialect, in the order of the lexicon, one of whose keywords occurs in the text: the
  lexicon splits into the entries before it, none of which has a keyword in the text,
  the entry itself, and the rest. When no keyword occurs in the text (the empty text
  included), the result is \<^verbatim>\<open>'msa'\<close>.
\<close>

theorem detect_dialect_first_match:
  "(if \<exists>(d, ks) \<in> set dialect_map. \<exists>k \<in> set ks. sublist k txt
    then \<exists>before d ks after. dialect_map = before @ (d, ks) # after \<and>
           (\<forall>(d', ks') \<in> set before. \<forall>k \<in> set ks'. \<not> sublist k txt) \<and>
           (\<exists>k \<in> set ks. sublist k txt) \<and> detect_dialect txt = d
    else detect_dialect txt = ascii ''msa'')"
proof (cases "\<exists>(d, ks) \<in> set dialect_map. \<exists>k \<in> set ks. sublist k txt")
  case True
  from detect_dialect_loop_first [OF True] True show ?thesis
    unfolding detect_dialect_def by simp
next
  case False
  then have "\<forall>(d, ks) \<in> set dialect_map. \<forall>k \<in> set ks. \<not> sublist k txt"
    by blast
  from detect_dialect_loop_none [OF this] False show ?thesis
    unfolding detect_dialect_def by simp
qed

text \<open>
  The scenarios of the spec: a text that starts with the Egyptian keyword U+0645 U+0634
  is tagged \<^verbatim>\<open>'egyptian'\<close>, and the texts \<^verbatim>\<open>'hello there'\<close> and \<^verbatim>\<open>''\<close> have no
  keyword and are tagged \<^verbatim>\<open>'msa'\<close>.
\<close>

theorem detect_dialect_first_match_witness:
  "(\<exists>(d, ks) \<in> set dialect_map. \<exists>k \<in> set ks. sublist k
      [0x645, 0x634, 0x20, 0x639, 0x627, 0x631, 0x641, 0x20, 0x627, 0x639, 0x645, 0x644,
       0x20, 0x627, 0x64A, 0x647]) \<and>
   detect_dialect
      [0x645, 0x634, 0x20, 0x639, 0x627, 0x631, 0x641, 0x20, 0x627, 0x639, 0x645, 0x644,
       0x20, 0x627, 0x64A, 0x647] = ascii ''egyptian'' \<and>
   \<not> (\<exists>(d, ks) \<in> set dialect_map. \<exists>k \<in> set ks. sublist k (ascii ''hello there'')) \<and>
   detect_dialect (ascii ''hello there'') = ascii ''msa'' \<and>
   \<not> (\<exists>(d, ks) \<in> set dialect_map. \<exists>k \<in> set ks. sublist k []) \<and>
   detect_dialect [] = ascii ''msa''"
proof -
  have hit: "\<exists>(d, ks) \<in> set dialect_map. \<exists>k \<in> set ks. sublist k
      [0x645, 0x634, 0x20, 0x639, 0x627, 0x631, 0x641, 0x20, 0x627, 0x639, 0x645, 0x644,
       0x20, 0x627, 0x64A, 0x647]"
    by (simp add: dialect_map_def sublist_eval)
  have egyptian: "detect_dialect
      [0x645, 0x634, 0x20, 0x639, 0x627, 0x631, 0x641, 0x20, 0x627, 0x639, 0x645, 0x644,
       0x20, 0x627, 0x64A, 0x647] = ascii ''egyptian''"
    by (simp add: detect_dialect_def dialect_map_def)
  have hello: "\<not> (\<exists>(d, ks) \<in> set dialect_map. \<exists>k \<in> set ks. sublist k (ascii ''hello there''))"
    by (simp add: dialect_map_def sublist_eval ascii_def)
  have empty: "\<not> (\<exists>(d, ks) \<in> set dialect_map. \<exists>k \<in> set ks. sublist k [])"
    by (simp add: dialect_map_def sublist_eval)
  from hello detect_dialect_first_match [of "ascii ''hello there''"]
  have msa1: "detect_dialect (ascii ''hello there'') = ascii ''msa''"
    by (simp only: if_False)
  from empty detect_dialect_first_match [of "[]"]
  have msa2: "detect_dialect [] = ascii ''msa''"
    by (simp only: if_False)
  from hit egyptian hello msa1 empty msa2 show ?thesis
    by (intro conjI)
qed

text \<open>
  Claim C9. When a text matches several dialects, the order of the lexicon decides:
  a text with an Egyptian keyword is tagged \<^verbatim>\<open>'egyptian'\<close> whatever else it contains;
  without one, a text with a Gulf keyword is tagged \<^verbatim>\<open>'gulf'\<close>; without either, a text
  with a Levantine keyword is tagged \<^verbatim>\<open>'levantine'\<close>. The tag is a function of the
  text, so the same text gets the same tag in every run.
\<close>

theorem detect_dialect_tie_order:
  "detect_dialect txt =
     (if has_keyword (ascii ''egyptian'') txt then ascii ''egyptian''
      else if has_keyword (ascii ''gulf'') txt then ascii ''gulf''
      else if has_keyword (ascii ''levantine'') txt then ascii ''levantine''
      else ascii ''msa'')"
  by (simp add: detect_dialect_def dialect_map_def has_keyword_def list_ex_iff
        str_in_sublist ascii_def)

text \<open>
  A text with the Gulf keyword U+0648 U+064A U+0646 U+0643 before the Egyptian keyword
  U+0645 U+0634 is tagged \<^verbatim>\<open>'egyptian'\<close>; a text with the Levantine keyword
  U+064A U+0645 U+0627 before the Gulf keyword U+0627 U+0628 U+0634 U+0631 is tagged
  \<^verbatim>\<open>'gulf'\<close>.
\<close>

theorem detect_dialect_tie_order_witness:
  "has_keyword (ascii ''egyptian'') [0x648, 0x64A, 0x646, 0x643, 0x20, 0x645, 0x634] \<and>
   has_keyword (ascii ''gulf'') [0x648, 0x64A, 0x646, 0x643, 0x20, 0x645, 0x634] \<and>
   detect_dialect [0x648, 0x64A, 0x646, 0x643, 0x20, 0x645, 0x634] = ascii ''egyptian'' \<and>
   \<not> has_keyword (ascii ''egyptian'') [0x64A, 0x645, 0x627, 0x20, 0x627, 0x628, 0x634, 0x631] \<and>
   has_keyword (ascii ''gulf'') [0x64A, 0x645, 0x627, 0x20, 0x627, 0x628, 0x634, 0x631] \<and>
   has_keyword (ascii ''levantine'') [0x64A, 0x645, 0x627, 0x20, 0x627, 0x628, 0x634, 0x631] \<and>
   detect_dialect [0x64A, 0x645, 0x627, 0x20, 0x627, 0x628, 0x634, 0x631] = ascii ''gulf''"
proof -
  have a: "has_keyword (ascii ''egyptian'') [0x648, 0x64A, 0x646, 0x643, 0x20, 0x645, 0x634]"
    by (simp add: has_keyword_def dialect_map_def ascii_def sublist_eval)
  have b: "has_keyword (ascii ''gulf'') [0x648, 0x64A, 0x646, 0x643, 0x20, 0x645, 0x634]"
    by (simp add: has_keyword_def dialect_map_def ascii_def sublist_eval)
  have c: "\<not> has_keyword (ascii ''egyptian'') [0x64A, 0x645, 0x627, 0x20, 0x627, 0x628, 0x634, 0x631]"
    by (simp add: has_keyword_def dialect_map_def ascii_def sublist_eval)
  have d: "has_keyword (ascii ''gulf'') [0x64A, 0x645, 0x627, 0x20, 0x627, 0x628, 0x634, 0x631]"
    by (simp add: has_keyword_def dialect_map_def ascii_def sublist_eval)
  have e: "has_keyword (ascii ''levantine'') [0x64A, 0x645, 0x627, 0x20, 0x627, 0x628, 0x634, 0x631]"
    by (simp add: has_keyword_def dialect_map_def ascii_def sublist_eval)
  from a b c d e
    detect_dialect_tie_order [of "[0x648, 0x64A, 0x646, 0x643, 0x20, 0x645, 0x634]"]
    detect_dialect_tie_order [of "[0x64A, 0x645, 0x627, 0x20, 0x627, 0x628, 0x634, 0x631]"]
  show ?thesis by simp
qed

section \<open>Response selection: theorems\<close>

text \<open>
  Claim C3. For an emotion that is a key of the table, \<open>generate_response\<close> returns the
  first candidate of the key's list; the keys are \<^verbatim>\<open>'positive'\<close>, \<^verbatim>\<open>'negative'\<close> and
  \<^verbatim>\<open>'neutral'\<close>; for \<^verbatim>\<open>'positive'\<close> the result is the first Arabic sentence of the
  table. For any other emotion the function raises \<^verbatim>\<open>KeyError\<close>: it has no default.
\<close>

theorem generate_response_lookup:
  "(\<forall>candidates. map_of responses emotion = Some candidates \<longrightarrow>
      (\<exists>first others. candidates = first # others \<and>
         generate_response t emotion = Inr first)) \<and>
   (map_of responses emotion = None \<longrightarrow> generate_response t emotion = Inl (KeyError emotion)) \<and>
   dom (map_of responses) = {ascii ''positive'', ascii ''negative'', ascii ''neutral''} \<and>
   generate_response t (ascii ''positive'') =
     Inr [0x623, 0x645, 0x631, 0x20, 0x631, 0x627, 0x626, 0x639, 0x21, 0x20, 0x647, 0x644,
          0x20, 0x62A, 0x631, 0x64A, 0x62F, 0x20, 0x627, 0x644, 0x645, 0x632, 0x64A, 0x62F,
          0x20, 0x645, 0x646, 0x20, 0x627, 0x644, 0x645, 0x633, 0x627, 0x639, 0x62F, 0x629,
          0x61F]"
proof (intro conjI allI impI)
  fix candidates
  assume "map_of responses emotion = Some candidates"
  then show "\<exists>first others. candidates = first # others \<and>
         generate_response t emotion = Inr first"
    by (auto simp: generate_response_def responses_def split: if_splits)
next
  assume "map_of responses emotion = None"
  then show "generate_response t emotion = Inl (KeyError emotion)"
    by (simp add: generate_response_def)
next
  show "dom (map_of responses) = {ascii ''positive'', ascii ''negative'', ascii ''neutral''}"
    by (auto simp: responses_def dom_map_of_conv_image_fst)
next
  show "generate_response t (ascii ''positive'') =
     Inr [0x623, 0x645, 0x631, 0x20, 0x631, 0x627, 0x626, 0x639, 0x21, 0x20, 0x647, 0x644,
          0x20, 0x62A, 0x631, 0x64A, 0x62F, 0x20, 0x627, 0x644, 0x645, 0x632, 0x64A, 0x62F,
          0x20, 0x645, 0x646, 0x20, 0x627, 0x644, 0x645, 0x633, 0x627, 0x639, 0x62F, 0x629,
          0x61F]"
    by (simp add: generate_response_def responses_def)
qed

theorem generate_response_lookup_witness:
  "map_of responses (ascii ''neutral'') =
     Some [[0x641, 0x647, 0x645, 0x62A, 0x2E, 0x20, 0x645, 0x627, 0x630, 0x627, 0x20, 0x62A,
            0x631, 0x64A, 0x62F, 0x20, 0x623, 0x646, 0x20, 0x62A, 0x641, 0x639, 0x644, 0x20,
            0x627, 0x644, 0x622, 0x646, 0x61F],
           [0x62D, 0x633, 0x646, 0x64B, 0x627, 0x60C, 0x20, 0x645, 0x627, 0x20, 0x627, 0x644,
            0x62E, 0x637, 0x648, 0x629, 0x20, 0x627, 0x644, 0x62A, 0x627, 0x644, 0x64A, 0x629,
            0x61F]] \<and>
   generate_response [] (ascii ''neutral'') =
     Inr [0x641, 0x647, 0x645, 0x62A, 0x2E, 0x20, 0x645, 0x627, 0x630, 0x627, 0x20, 0x62A,
          0x631, 0x64A, 0x62F, 0x20, 0x623, 0x646, 0x20, 0x62A, 0x641, 0x639, 0x644, 0x20,
          0x627, 0x644, 0x622, 0x646, 0x61F] \<and>
   map_of responses (ascii ''happy'') = None \<and>
   generate_response [] (ascii ''happy'') = Inl (KeyError (ascii ''happy''))"
proof -
  have key: "map_of responses (ascii ''neutral'') =
     Some [[0x641, 0x647, 0x645, 0x62A, 0x2E, 0x20, 0x645, 0x627, 0x630, 0x627, 0x20, 0x62A,
            0x631, 0x64A, 0x62F, 0x20, 0x623, 0x646, 0x20, 0x62A, 0x641, 0x639, 0x644, 0x20,
            0x627, 0x644, 0x622, 0x646, 0x61F],
           [0x62D, 0x633, 0x646, 0x64B, 0x627, 0x60C, 0x20, 0x645, 0x627, 0x20, 0x627, 0x644,
            0x62E, 0x637, 0x648, 0x629, 0x20, 0x627, 0x644, 0x62A, 0x627, 0x644, 0x64A, 0x629,
            0x61F]]"
    by (simp add: responses_def ascii_def)
  have nokey: "map_of responses (ascii ''happy'') = None"
    by (simp add: responses_def ascii_def)
  from key nokey
    generate_response_lookup [where emotion = "ascii ''neutral''" and t = "[]"]
    generate_response_lookup [where emotion = "ascii ''happy''" and t = "[]"]
  show ?thesis by simp
qed

section \<open>Speech to text: theorems\<close>

text \<open>
  Claim C5, as the spec states it, fails: the dialect that \<open>speech_to_text\<close> returns
  is not the one of the diacritic-stripped transcript. For the transcript U+0645 U+0650
  U+0634 (the Egyptian keyword with a kasra between its two letters) the raw text has no
  keyword, while the stripped text is the keyword.
\<close>

theorem speech_to_text_dialect_counterexample:
  "snd (speech_to_text dediac_ar [0x645, 0x650, 0x634]) \<noteq>
   detect_dialect (dediac_ar [0x645, 0x650, 0x634])"
  by (simp add: speech_to_text_def dediac_ar_def detect_dialect_def dialect_map_def ascii_def)

text \<open>
  Claim C5, amended. \<open>speech_to_text\<close> returns the diacritic-stripped transcript, and
  the dialect of the raw transcript, which is detected before the diacritics are
  stripped. When stripping leaves the transcript as it is, that dialect is the one of
  the stripped transcript.
\<close>

theorem speech_to_text_raw_dialect:
  "speech_to_text dediac transcript = (dediac transcript, detect_dialect transcript) \<and>
   (dediac transcript = transcript \<longrightarrow>
      snd (speech_to_text dediac transcript) = detect_dialect (dediac transcript))"
  by (simp add: speech_to_text_def)

text \<open>
  With a kasra inside the keyword the tag is \<^verbatim>\<open>'msa'\<close> and the returned text is the
  keyword; without diacritics the tag is the one of the returned text.
\<close>

theorem speech_to_text_raw_dialect_witness:
  "speech_to_text dediac_ar [0x645, 0x650, 0x634] = ([0x645, 0x634], ascii ''msa'') \<and>
   detect_dialect [0x645, 0x634] = ascii ''egyptian'' \<and>
   dediac_ar [0x645, 0x634] = [0x645, 0x634] \<and>
   speech_to_text dediac_ar [0x645, 0x634] = ([0x645, 0x634], ascii ''egyptian'')"
  using speech_to_text_raw_dialect [of dediac_ar "[0x645, 0x650, 0x634]"]
    speech_to_text_raw_dialect [of dediac_ar "[0x645, 0x634]"]
  by (simp add: dediac_ar_def detect_dialect_def dialect_map_def ascii_def)

section \<open>Text entry: theorems\<close>

lemma all_dropWhile: "(\<forall>x \<in> set (dropWhile P xs). P x) \<longleftrightarrow> (\<forall>x \<in> set xs. P x)"
proof
  assume a: "\<forall>x \<in> set (dropWhile P xs). P x"
  have "dropWhile P xs = []"
  proof (rule ccontr)
    assume ne: "dropWhile P xs \<noteq> []"
    then have "\<not> P (hd (dropWhile P xs))" by (rule hd_dropWhile)
    moreover from ne have "hd (dropWhile P xs) \<in> set (dropWhile P xs)" by simp
    ultimately show False using a by blast
  qed
  then show "\<forall>x \<in> set xs. P x" by (simp add: dropWhile_eq_Nil_conv)
next
  assume "\<forall>x \<in> set xs. P x"
  then show "\<forall>x \<in> set (dropWhile P xs). P x" by (auto dest: set_dropWhileD)
qed

lemma str_strip_empty: "str_strip s = [] \<longleftrightarrow> (\<forall>c \<in> set s. py_isspace c)"
  by (simp add: str_strip_def dropWhile_eq_Nil_conv all_dropWhile)

lemma str_lower_ascii:
  "list_all (\<lambda>c. c < 0x80) s \<Longrightarrow> str_lower ucd s = map ascii_lower s"
  by (simp add: str_lower_def)

lemma ascii_space_not_exit:
  assumes "\<forall>c \<in> set line. py_isspace c \<and> c < 0x80"
  shows "str_lower ucd line \<noteq> ascii ''exit''"
proof (cases line)
  case Nil
  then show ?thesis by (simp add: str_lower_def ascii_def)
next
  case (Cons c cs)
  with assms have sp: "py_isspace c" and "c < 0x80" and "list_all (\<lambda>c. c < 0x80) line"
    by (auto simp: list_all_iff)
  then have "str_lower ucd line = ascii_lower c # map ascii_lower cs"
    using Cons by (simp add: str_lower_def)
  moreover from sp \<open>c < 0x80\<close> have "ascii_lower c \<noteq> 0x65"
    by (auto simp: py_isspace_def ascii_lower_def)
  ultimately show ?thesis by (simp add: ascii_def)
qed

lemma get_text_input_blanks:
  "\<forall>l \<in> set blanks. str_lower ucd l \<noteq> ascii ''exit'' \<and> (\<forall>c \<in> set l. py_isspace c) \<Longrightarrow>
   get_text_input ucd (map Typed blanks @ con) =
     (case get_text_input ucd con of
        (r, con', ev) \<Rightarrow>
          (r, con', concat (map (\<lambda>l. [Prompt EnterText, PleaseEnter]) blanks) @ ev))"
  by (induction blanks) (auto simp: str_strip_empty split: prod.splits)

text \<open>
  Claim C6. \<open>get_text_input\<close> returns \<^verbatim>\<open>(None, None)\<close>, the exit value, for a line
  whose lower-cased form is \<^verbatim>\<open>'exit'\<close> (for a line of ASCII characters: when it is
  \<^verbatim>\<open>exit\<close> up to the case of its letters) and for Ctrl-C. For a line that is empty or
  has only whitespace it prints its request and prompts again, any number of times in
  a row: the result is the one of the rest of the console, after one more prompt for
  each such line. For any other line it returns the line with the dialect \<^verbatim>\<open>'msa'\<close>.
  A whitespace line outside ASCII is lower-cased by the Unicode database, which is a
  parameter here: for such a line the statement asks that its lower-cased form is not
  \<^verbatim>\<open>'exit'\<close>.
\<close>

theorem get_text_input_cases:
  "(str_lower ucd line = ascii ''exit'' \<longrightarrow>
      get_text_input ucd (Typed line # con) = (Returns (None, None), con, [Prompt EnterText])) \<and>
   (list_all (\<lambda>c. c < 0x80) line \<longrightarrow>
      (str_lower ucd line = ascii ''exit'') = (map ascii_lower line = ascii ''exit'')) \<and>
   get_text_input ucd (CtrlC # con) = (Returns (None, None), con, [Prompt EnterText]) \<and>
   ((\<forall>c \<in> set line. py_isspace c) \<and>
    (str_lower ucd line \<noteq> ascii ''exit'' \<or> (\<forall>c \<in> set line. c < 0x80)) \<longrightarrow>
      get_text_input ucd (Typed line # con) =
        (case get_text_input ucd con of
           (r, con', ev) \<Rightarrow> (r, con', Prompt EnterText # PleaseEnter # ev))) \<and>
   ((\<forall>l \<in> set blanks. str_lower ucd l \<noteq> ascii ''exit'' \<and> (\<forall>c \<in> set l. py_isspace c)) \<longrightarrow>
      get_text_input ucd (map Typed blanks @ con) =
        (case get_text_input ucd con of
           (r, con', ev) \<Rightarrow>
             (r, con', concat (map (\<lambda>l. [Prompt EnterText, PleaseEnter]) blanks) @ ev))) \<and>
   (str_lower ucd line \<noteq> ascii ''exit'' \<and> (\<exists>c \<in> set line. \<not> py_isspace c) \<longrightarrow>
      get_text_input ucd (Typed line # con) =
        (Returns (Some line, Some (ascii ''msa'')), con, [Prompt EnterText]))"
proof (intro conjI impI)
  assume "str_lower ucd line = ascii ''exit''"
  then show "get_text_input ucd (Typed line # con) = (Returns (None, None), con, [Prompt EnterText])"
    by simp
next
  assume "list_all (\<lambda>c. c < 0x80) line"
  then show "(str_lower ucd line = ascii ''exit'') = (map ascii_lower line = ascii ''exit'')"
    by (simp add: str_lower_ascii)
next
  show "get_text_input ucd (CtrlC # con) = (Returns (None, None), con, [Prompt EnterText])"
    by simp
next
  assume a: "(\<forall>c \<in> set line. py_isspace c) \<and>
    (str_lower ucd line \<noteq> ascii ''exit'' \<or> (\<forall>c \<in> set line. c < 0x80))"
  then have "str_lower ucd line \<noteq> ascii ''exit''"
    using ascii_space_not_exit [of line ucd] by blast
  moreover from a have "str_strip line = []"
    by (simp add: str_strip_empty)
  ultimately show "get_text_input ucd (Typed line # con) =
        (case get_text_input ucd con of
           (r, con', ev) \<Rightarrow> (r, con', Prompt EnterText # PleaseEnter # ev))"
    by simp
next
  assume "\<forall>l \<in> set blanks. str_lower ucd l \<noteq> ascii ''exit'' \<and> (\<forall>c \<in> set l. py_isspace c)"
  then show "get_text_input ucd (map Typed blanks @ con) =
        (case get_text_input ucd con of
           (r, con', ev) \<Rightarrow>
             (r, con', concat (map (\<lambda>l. [Prompt EnterText, PleaseEnter]) blanks) @ ev))"
    by (rule get_text_input_blanks)
next
  assume a: "str_lower ucd line \<noteq> ascii ''exit'' \<and> (\<exists>c \<in> set line. \<not> py_isspace c)"
  then have "str_strip line \<noteq> []"
    by (simp add: str_strip_empty)
  with a show "get_text_input ucd (Typed line # con) =
        (Returns (Some line, Some (ascii ''msa'')), con, [Prompt EnterText])"
    by simp
qed

text \<open>
  The lines \<^verbatim>\<open>ExIt\<close> and Ctrl-C end the entry; an empty line and a line of two
  blanks are asked again; the line \<^verbatim>\<open>' exit'\<close>, with a blank in front, is returned as
  text.
\<close>

theorem get_text_input_cases_witness:
  "str_lower ucd_id (ascii ''ExIt'') = ascii ''exit'' \<and>
   get_text_input ucd_id [Typed (ascii ''ExIt''), Typed (ascii ''later'')] =
     (Returns (None, None), [Typed (ascii ''later'')], [Prompt EnterText]) \<and>
   get_text_input ucd_id [CtrlC, Typed (ascii ''later'')] =
     (Returns (None, None), [Typed (ascii ''later'')], [Prompt EnterText]) \<and>
   list_all py_isspace (ascii ''  '') \<and>
   get_text_input ucd_id
     [Typed [], Typed (ascii ''  ''), Typed (ascii ''ExIt''), Typed (ascii ''later'')] =
     (Returns (None, None), [Typed (ascii ''later'')],
      [Prompt EnterText, PleaseEnter, Prompt EnterText, PleaseEnter, Prompt EnterText]) \<and>
   str_lower ucd_id (ascii '' exit'') \<noteq> ascii ''exit'' \<and>
   get_text_input ucd_id [Typed (ascii '' exit''), Typed (ascii ''later'')] =
     (Returns (Some (ascii '' exit''), Some (ascii ''msa'')), [Typed (ascii ''later'')],
      [Prompt EnterText])"
  using get_text_input_cases [of ucd_id "ascii ''ExIt''" "[Typed (ascii ''later'')]" "[[], ascii ''  '']"]
    get_text_input_cases [of ucd_id "ascii '' exit''" "[Typed (ascii ''later'')]" "[]"]
  by (simp add: ascii_def str_lower_def ascii_lower_def str_strip_def py_isspace_def)

section \<open>The main loop: theorems\<close>

lemmas turn_defs = turn_def respond_def get_feedback_def text_to_speech_def gtts_fallback_def
  py_input_def sf_read_def stopped_def record_audio_def truthy_def speech_to_text_def ascii_def
  Let_def

lemmas eval_defs = turn_defs generate_response_def responses_def detect_dialect_def dialect_map_def
  dediac_ar_def str_lower_def ascii_lower_def init_def google_request_def save_feedback_def
  state_after_def trace_of_def str_strip_def py_isspace_def sample_turn_def neutral_reply_def

lemma get_text_input_exit:
  "get_text_input ucd con = (Returns (None, d), con', ev) \<Longrightarrow>
   \<exists>blanks e. con = map Typed blanks @ e # con' \<and>
     (e = CtrlC \<or> (\<exists>line. e = Typed line \<and> str_lower ucd line = ascii ''exit''))"
proof (induction ucd con arbitrary: ev rule: get_text_input.induct)
  case (1 ucd)
  then show ?case by simp
next
  case (2 ucd line con)
  show ?case
  proof (cases "str_lower ucd line = ascii ''exit''")
    case True
    with "2.prems" have "Typed line # con = map Typed [] @ Typed line # con'" by simp
    with True show ?thesis by blast
  next
    case False
    show ?thesis
    proof (cases "str_strip line \<noteq> []")
      case True
      with False "2.prems" show ?thesis by simp
    next
      case blank: False
      with False "2.prems" obtain ev0 where "get_text_input ucd con = (Returns (None, d), con', ev0)"
        by (auto split: prod.splits)
      with "2.IH" False blank obtain blanks e where
        "con = map Typed blanks @ e # con'"
        "e = CtrlC \<or> (\<exists>line. e = Typed line \<and> str_lower ucd line = ascii ''exit'')"
        by blast
      then have "Typed line # con = map Typed (line # blanks) @ e # con'" by simp
      with \<open>e = CtrlC \<or> _\<close> show ?thesis by blast
    qed
  qed
next
  case (3 ucd con)
  then have "CtrlC # con = map Typed [] @ CtrlC # con'" by simp
  then show ?case by blast
next
  case (4 ucd con)
  then show ?case by simp
qed

lemma respond_not_exited: "fst (respond ucd s sc t con) \<noteq> Exited"
  by (auto simp: turn_defs split: sum.splits prod.splits list.splits console_event.splits
        option.splits if_splits)

lemma generate_response_error:
  "generate_response t emotion = Inl e \<Longrightarrow> e = KeyError emotion \<or> e = IndexError"
  by (auto simp: generate_response_def split: option.splits list.splits)

lemma respond_not_exited_tuple: "respond ucd s sc t con = (st, s', con', ev) \<Longrightarrow> st \<noteq> Exited"
  using respond_not_exited [of ucd s sc t con] by simp

lemma respond_not_interrupted:
  "CtrlC \<notin> set con \<Longrightarrow> fst (respond ucd s sc t con) \<noteq> Interrupted"
  by (auto simp: turn_defs dest!: generate_response_error
        split: sum.splits prod.splits list.splits console_event.splits option.splits if_splits)

lemma respond_classifies: "Classify t \<in> set (snd (snd (snd (respond ucd s sc t con))))"
  by (auto simp: turn_defs Let_def split: sum.splits prod.splits list.splits console_event.splits
        option.splits if_splits)

lemma turn_mic:
  "mic_works sc \<Longrightarrow>
   turn ucd dediac s sc con =
     (case respond ucd s sc (dediac (whisper_text sc)) con of
        (st, s', con', ev) \<Rightarrow>
          (st, s', con',
           RecordAudio True # Transcribe #
             UserVoice (dediac (whisper_text sc)) (detect_dialect (whisper_text sc)) # ev))"
  by (simp add: turn_def record_audio_def truthy_def speech_to_text_def ascii_def Let_def)

lemma turn_exited:
  assumes "fst (turn ucd dediac s sc con) = Exited"
  shows "\<not> mic_works sc \<and> (\<exists>d con' ev. get_text_input ucd con = (Returns (None, d), con', ev))"
proof -
  have nm: "\<not> mic_works sc"
  proof
    assume "mic_works sc"
    with assms respond_not_exited [of ucd s sc "dediac (whisper_text sc)" con] show False
      by (simp add: turn_mic split: prod.splits)
  qed
  with assms have "\<exists>d con' ev. get_text_input ucd con = (Returns (None, d), con', ev)"
    by (auto simp: turn_def record_audio_def truthy_def stopped_def Let_def
          dest: respond_not_exited_tuple
          split: prod.splits outcome.splits option.splits if_splits)
  with nm show ?thesis by blast
qed

lemma session_mic_not_exited:
  "\<forall>sc \<in> set scs. mic_works sc \<Longrightarrow> fst (session ucd dediac s scs con) \<noteq> Exited"
proof (induction scs arbitrary: s con)
  case Nil
  then show ?case by simp
next
  case (Cons sc scs)
  then have mic: "mic_works sc" and rest: "\<forall>sc \<in> set scs. mic_works sc" by simp_all
  obtain st s1 con1 ev where t: "turn ucd dediac s sc con = (st, s1, con1, ev)"
    by (cases "turn ucd dediac s sc con") auto
  from mic have "st \<noteq> Exited"
    using turn_exited [of ucd dediac s sc con] t by auto
  with t Cons.IH [OF rest, of s1 con1] show ?case
    by (cases st) (auto split: prod.splits)
qed

text \<open>
  Claim C10. The loop leaves through \<^verbatim>\<open>break\<close> (status \<open>Exited\<close>) only in a turn
  whose audio capture failed and whose text entry ended, after any number of lines that
  were asked again, with Ctrl-C or with a line that lower-cases to \<^verbatim>\<open>'exit'\<close>. In a
  turn whose capture works the status is never \<open>Exited\<close>, the transcript goes to the
  classifier whatever it says (a spoken \<^verbatim>\<open>exit\<close> included), and lines typed at the
  prompts of that turn cannot stop the loop: without a Ctrl-C on the console the status
  is not \<open>Interrupted\<close> either. A run all of whose turns capture audio never ends
  with \<open>Exited\<close>.
\<close>

theorem exit_only_via_text_entry:
  "(mic_works sc \<longrightarrow> fst (turn ucd dediac s sc con) \<noteq> Exited) \<and>
   (mic_works sc \<longrightarrow>
      Classify (dediac (whisper_text sc)) \<in> set (trace_of (turn ucd dediac s sc con))) \<and>
   (mic_works sc \<and> CtrlC \<notin> set con \<longrightarrow> fst (turn ucd dediac s sc con) \<noteq> Interrupted) \<and>
   (fst (turn ucd dediac s sc con) = Exited \<longrightarrow>
      \<not> mic_works sc \<and>
      (\<exists>blanks e rest. con = map Typed blanks @ e # rest \<and>
         (e = CtrlC \<or> (\<exists>line. e = Typed line \<and> str_lower ucd line = ascii ''exit'')))) \<and>
   ((\<forall>sc \<in> set scs. mic_works sc) \<longrightarrow> fst (session ucd dediac s scs con) \<noteq> Exited)"
proof (intro conjI impI)
  assume "mic_works sc"
  then show "fst (turn ucd dediac s sc con) \<noteq> Exited"
    using turn_exited [of ucd dediac s sc con] by blast
next
  assume "mic_works sc"
  then show "Classify (dediac (whisper_text sc)) \<in> set (trace_of (turn ucd dediac s sc con))"
    using respond_classifies [of "dediac (whisper_text sc)" ucd s sc con]
    by (cases "respond ucd s sc (dediac (whisper_text sc)) con") (simp add: turn_mic trace_of_def)
next
  assume "mic_works sc \<and> CtrlC \<notin> set con"
  then show "fst (turn ucd dediac s sc con) \<noteq> Interrupted"
    using respond_not_interrupted [of con ucd s sc "dediac (whisper_text sc)"]
    by (cases "respond ucd s sc (dediac (whisper_text sc)) con") (simp add: turn_mic)
next
  assume ex: "fst (turn ucd dediac s sc con) = Exited"
  then show "\<not> mic_works sc" using turn_exited by blast
  from ex obtain d con' ev where "get_text_input ucd con = (Returns (None, d), con', ev)"
    using turn_exited by blast
  from get_text_input_exit [OF this]
  show "\<exists>blanks e rest. con = map Typed blanks @ e # rest \<and>
         (e = CtrlC \<or> (\<exists>line. e = Typed line \<and> str_lower ucd line = ascii ''exit''))"
    by blast
next
  assume "\<forall>sc \<in> set scs. mic_works sc"
  then show "fst (session ucd dediac s scs con) \<noteq> Exited"
    by (rule session_mic_not_exited)
qed

text \<open>
  A turn that hears \<^verbatim>\<open>exit\<close>, and is then given \<^verbatim>\<open>exit\<close> as rating and as
  correction, goes on to the next turn; a turn whose capture fails and whose second
  typed line is \<^verbatim>\<open>Exit\<close> leaves the loop.
\<close>

theorem exit_only_via_text_entry_witness:
  "mic_works (sample_turn True (ascii ''exit'') False True) \<and>
   fst (turn ucd_id dediac_ar (init False False) (sample_turn True (ascii ''exit'') False True)
         [Typed (ascii ''exit''), Typed (ascii ''exit'')]) = Looping \<and>
   Classify (ascii ''exit'') \<in>
     set (trace_of (turn ucd_id dediac_ar (init False False)
            (sample_turn True (ascii ''exit'') False True)
            [Typed (ascii ''exit''), Typed (ascii ''exit'')])) \<and>
   \<not> mic_works (sample_turn False [] False True) \<and>
   fst (turn ucd_id dediac_ar (init False False) (sample_turn False [] False True)
         [Typed [], Typed (ascii ''Exit'')]) = Exited"
  using exit_only_via_text_entry [of "sample_turn True (ascii ''exit'') False True"
      ucd_id dediac_ar "init False False" "[Typed (ascii ''exit''), Typed (ascii ''exit'')]" "[]"]
    exit_only_via_text_entry [of "sample_turn False [] False True"
      ucd_id dediac_ar "init False False" "[Typed [], Typed (ascii ''Exit'')]" "[]"]
  by (simp add: eval_defs)

lemma is_google_simps [simp]:
  "is_google (GoogleTTS req ok)"
  "\<not> is_google (RecordAudio b)"
  "\<not> is_google Transcribe"
  "\<not> is_google (UserVoice t d)"
  "\<not> is_google (UserText t d)"
  "\<not> is_google (Prompt p)"
  "\<not> is_google PleaseEnter"
  "\<not> is_google (Classify t)"
  "\<not> is_google (GTTS t ok)"
  "\<not> is_google (SfRead file)"
  "\<not> is_google Play"
  "\<not> is_google (Report n)"
  by (simp_all add: is_google_def)

lemma append_eq_split:
  "xs @ ys = before @ x # after \<Longrightarrow>
   (\<exists>us. xs = before @ x # us \<and> after = us @ ys) \<or>
   (\<exists>us. before = xs @ us \<and> ys = us @ x # after)"
proof (induction xs arbitrary: before)
  case Nil
  then show ?case by simp
next
  case (Cons a xs)
  show ?case
  proof (cases before)
    case Nil
    with Cons.prems show ?thesis by simp
  next
    case (Cons b before')
    with Cons.prems have "a = b" "xs @ ys = before' @ x # after" by simp_all
    from Cons.IH [OF this(2)] \<open>a = b\<close> Cons show ?thesis by auto
  qed
qed

lemma get_text_input_no_google:
  "get_text_input ucd con = (r, con', ev) \<Longrightarrow> filter is_google ev = []"
  by (induction ucd con arbitrary: r con' ev rule: get_text_input.induct)
     (auto split: if_splits prod.splits)

lemma get_feedback_google:
  "get_feedback ucd s clock t response con = (st, s', con', ev) \<Longrightarrow>
   filter is_google ev = [] \<and> use_google_tts s' = use_google_tts s"
  by (auto simp: get_feedback_def py_input_def Let_def save_feedback_def stopped_def
        split: list.splits console_event.splits if_splits)

lemma text_to_speech_google:
  "text_to_speech s g f t emotion = (r, s', ev) \<Longrightarrow>
   length (filter is_google ev) \<le> 1 \<and>
   (\<not> use_google_tts s \<longrightarrow> \<not> use_google_tts s' \<and> filter is_google ev = []) \<and>
   ((\<exists>req. GoogleTTS req False \<in> set ev) \<longrightarrow> \<not> use_google_tts s')"
  by (auto simp: text_to_speech_def gtts_fallback_def split: if_splits)

lemma respond_google:
  assumes "respond ucd s sc t con = (st, s', con', ev)"
  shows "length (filter is_google ev) \<le> 1 \<and>
   (\<not> use_google_tts s \<longrightarrow> \<not> use_google_tts s' \<and> filter is_google ev = []) \<and>
   ((\<exists>req. GoogleTTS req False \<in> set ev) \<longrightarrow> \<not> use_google_tts s')"
proof (cases "generate_response t (sentiment_label sc)")
  case (Inl e)
  with assms show ?thesis by (auto simp: respond_def Let_def)
next
  case (Inr response)
  obtain r s1 ev1 where tts:
    "text_to_speech s (google_works sc) (gtts_works sc) response (sentiment_label sc) = (r, s1, ev1)"
    by (cases "text_to_speech s (google_works sc) (gtts_works sc) response (sentiment_label sc)") auto
  note g = text_to_speech_google [OF tts]
  show ?thesis
  proof (cases "sf_read r")
    case (Inl e)
    with assms Inr tts have "s' = s1" "ev = Classify t # ev1 @ [SfRead r]"
      by (auto simp: respond_def Let_def)
    with g show ?thesis by auto
  next
    case (Inr audio)
    obtain st2 s2 con2 ev2 where fb:
      "get_feedback ucd s1 (clock_now sc) t response con = (st2, s2, con2, ev2)"
      by (cases "get_feedback ucd s1 (clock_now sc) t response con") auto
    note h = get_feedback_google [OF fb]
    from assms \<open>generate_response t (sentiment_label sc) = Inr response\<close> tts Inr fb
    have "s' = s2" "ev = Classify t # ev1 @ [SfRead r, Play] @ ev2"
      by (auto simp: respond_def Let_def)
    moreover from h have "\<forall>req. GoogleTTS req False \<notin> set ev2"
      by (auto simp: filter_empty_conv)
    ultimately show ?thesis using g h by auto
  qed
qed

lemma turn_google:
  assumes "turn ucd dediac s sc con = (st, s', con', ev)"
  shows "length (filter is_google ev) \<le> 1 \<and>
   (\<not> use_google_tts s \<longrightarrow> \<not> use_google_tts s' \<and> filter is_google ev = []) \<and>
   ((\<exists>req. GoogleTTS req False \<in> set ev) \<longrightarrow> \<not> use_google_tts s')"
proof (cases "truthy (record_audio (mic_works sc))")
  case True
  obtain st2 s2 con2 ev2 where r: "respond ucd s sc (dediac (whisper_text sc)) con = (st2, s2, con2, ev2)"
    by (cases "respond ucd s sc (dediac (whisper_text sc)) con") auto
  with assms True have "s' = s2"
    "ev = RecordAudio True # Transcribe #
       UserVoice (dediac (whisper_text sc)) (detect_dialect (whisper_text sc)) # ev2"
    by (auto simp: turn_def Let_def speech_to_text_def)
  with respond_google [OF r] show ?thesis by auto
next
  case False
  obtain r con1 ev1 where gti: "get_text_input ucd con = (r, con1, ev1)"
    by (cases "get_text_input ucd con") auto
  note n = get_text_input_no_google [OF gti]
  then have nf: "\<forall>req. GoogleTTS req False \<notin> set ev1"
    by (auto simp: filter_empty_conv)
  show ?thesis
  proof (cases r)
    case (Returns p)
    obtain a d where p: "p = (a, d)" by (cases p) auto
    show ?thesis
    proof (cases a)
      case None
      with assms False gti Returns p have "s' = s" "ev = RecordAudio False # ev1"
        by (auto simp: turn_def Let_def)
      with n nf show ?thesis by auto
    next
      case (Some t)
      obtain st2 s2 con2 ev2 where r2: "respond ucd s sc t con1 = (st2, s2, con2, ev2)"
        by (cases "respond ucd s sc t con1") auto
      with assms False gti Returns p Some have "s' = s2"
        "ev = RecordAudio False # ev1 @ UserText t (case d of Some d \<Rightarrow> d | None \<Rightarrow> []) # ev2"
        by (auto simp: turn_def Let_def)
      with respond_google [OF r2] n nf show ?thesis by auto
    qed
  next
    case (Raises e)
    with assms False gti have "s' = s" "ev = RecordAudio False # ev1"
      by (auto simp: turn_def Let_def)
    with n nf show ?thesis by auto
  next
    case Blocks
    with assms False gti have "s' = s" "ev = RecordAudio False # ev1"
      by (auto simp: turn_def Let_def)
    with n nf show ?thesis by auto
  qed
qed

lemma session_step:
  "session ucd dediac s (sc # scs) con = (st, s', con', tr) \<Longrightarrow>
   \<exists>st1 s1 con1 ev. turn ucd dediac s sc con = (st1, s1, con1, ev) \<and>
     ((st1 = Looping \<and> (\<exists>ev2. session ucd dediac s1 scs con1 = (st, s', con', ev2) \<and> tr = ev @ ev2)) \<or>
      (st1 = Interrupted \<and> st = Interrupted \<and> s' = s1 \<and> con' = con1 \<and>
         tr = ev @ [Report (length (feedback_db s1))]) \<or>
      (st1 \<noteq> Looping \<and> st1 \<noteq> Interrupted \<and> st = st1 \<and> s' = s1 \<and> con' = con1 \<and> tr = ev))"
  by (cases "turn ucd dediac s sc con" rule: prod_cases4)
     (auto split: status.splits prod.splits)

lemma session_google_off:
  "session ucd dediac s scs con = (st, s', con', tr) \<Longrightarrow> \<not> use_google_tts s \<Longrightarrow>
   \<not> use_google_tts s' \<and> filter is_google tr = []"
proof (induction scs arbitrary: s con st s' con' tr)
  case Nil
  then show ?case by simp
next
  case (Cons sc scs)
  from session_step [OF Cons.prems(1)] obtain st1 s1 con1 ev where
    t: "turn ucd dediac s sc con = (st1, s1, con1, ev)" and
    c: "(st1 = Looping \<and> (\<exists>ev2. session ucd dediac s1 scs con1 = (st, s', con', ev2) \<and> tr = ev @ ev2)) \<or>
      (st1 = Interrupted \<and> st = Interrupted \<and> s' = s1 \<and> con' = con1 \<and>
         tr = ev @ [Report (length (feedback_db s1))]) \<or>
      (st1 \<noteq> Looping \<and> st1 \<noteq> Interrupted \<and> st = st1 \<and> s' = s1 \<and> con' = con1 \<and> tr = ev)"
    by blast
  from turn_google [OF t] Cons.prems(2) have off: "\<not> use_google_tts s1" "filter is_google ev = []"
    by simp_all
  from c show ?case
  proof (elim disjE conjE exE)
    fix ev2
    assume "session ucd dediac s1 scs con1 = (st, s', con', ev2)" "tr = ev @ ev2"
    with Cons.IH [of s1 con1 st s' con' ev2] off show ?thesis by simp
  next
    assume "s' = s1" "tr = ev @ [Report (length (feedback_db s1))]"
    with off show ?thesis by simp
  next
    assume "s' = s1" "tr = ev"
    with off show ?thesis by simp
  qed
qed

lemma singleton_eq_split: "[a] = us @ x # after \<Longrightarrow> us = [] \<and> a = x \<and> after = []"
  by (cases us) auto

lemma split_failed_google:
  assumes "length (filter is_google ev) \<le> 1" and "ev = before @ GoogleTTS req False # after"
  shows "filter is_google after = []"
proof -
  from assms show ?thesis by simp
qed

lemma session_google_failed:
  "session ucd dediac s scs con = (st, s', con', tr) \<Longrightarrow>
   tr = before @ GoogleTTS req False # after \<Longrightarrow>
   \<not> use_google_tts s' \<and> filter is_google after = []"
proof (induction scs arbitrary: s con st s' con' tr before)
  case Nil
  then show ?case by simp
next
  case (Cons sc scs)
  from session_step [OF Cons.prems(1)] obtain st1 s1 con1 ev where
    t: "turn ucd dediac s sc con = (st1, s1, con1, ev)" and
    c: "(st1 = Looping \<and> (\<exists>ev2. session ucd dediac s1 scs con1 = (st, s', con', ev2) \<and> tr = ev @ ev2)) \<or>
      (st1 = Interrupted \<and> st = Interrupted \<and> s' = s1 \<and> con' = con1 \<and>
         tr = ev @ [Report (length (feedback_db s1))]) \<or>
      (st1 \<noteq> Looping \<and> st1 \<noteq> Interrupted \<and> st = st1 \<and> s' = s1 \<and> con' = con1 \<and> tr = ev)"
    by blast
  note g = turn_google [OF t]
  from c show ?case
  proof (elim disjE conjE exE)
    fix ev2
    assume rest: "session ucd dediac s1 scs con1 = (st, s', con', ev2)" and tr: "tr = ev @ ev2"
    with Cons.prems(2) have "ev @ ev2 = before @ GoogleTTS req False # after" by simp
    from append_eq_split [OF this] consider
      (left) us where "ev = before @ GoogleTTS req False # us" "after = us @ ev2"
      | (right) us where "before = ev @ us" "ev2 = us @ GoogleTTS req False # after"
      by blast
    then show ?thesis
    proof cases
      case left
      with g have "\<not> use_google_tts s1" by auto
      from session_google_off [OF rest this] have "\<not> use_google_tts s'" "filter is_google ev2 = []"
        by simp_all
      moreover from g have "length (filter is_google ev) \<le> 1" by simp
      from split_failed_google [OF this left(1)] have "filter is_google us = []" .
      ultimately show ?thesis using left(2) by simp
    next
      case right
      from Cons.IH [OF rest right(2)] show ?thesis .
    qed
  next
    assume s': "s' = s1" and tr: "tr = ev @ [Report (length (feedback_db s1))]"
    with Cons.prems(2) have "ev @ [Report (length (feedback_db s1))] = before @ GoogleTTS req False # after"
      by simp
    from append_eq_split [OF this] obtain us where us: "ev = before @ GoogleTTS req False # us"
      "after = us @ [Report (length (feedback_db s1))]"
      by (auto dest: singleton_eq_split)
    with g have "\<not> use_google_tts s1" by auto
    moreover from g have "length (filter is_google ev) \<le> 1" by simp
    from split_failed_google [OF this us(1)] have "filter is_google us = []" .
    ultimately show ?thesis using s' us(2) by simp
  next
    assume s': "s' = s1" and tr: "tr = ev"
    with Cons.prems(2) have ev: "ev = before @ GoogleTTS req False # after" by simp
    with g have "\<not> use_google_tts s1" by auto
    moreover from g have "length (filter is_google ev) \<le> 1" by simp
    from split_failed_google [OF this ev] have "filter is_google after = []" .
    ultimately show ?thesis using s' by simp
  qed
qed

text \<open>
  Claim C1. A failed call of the Google backend clears \<open>use_google_tts\<close>. With the
  flag cleared, \<open>text_to_speech\<close> is the gTTS fallback alone: it leaves the state as
  it is and its only event is the gTTS call. Nothing in a run sets the flag again: a
  run that starts with the flag cleared ends with it cleared and has no call of the
  Google backend in its trace; and in any run, after a failed call of the Google
  backend the trace has no further call of it and the flag is cleared at the end.
\<close>

theorem google_tts_monotonic_degradation:
  "(use_google_tts s \<and> tts_client s \<and> \<not> google_ok \<longrightarrow>
      \<not> use_google_tts (fst (snd (text_to_speech s google_ok gtts_ok t emotion)))) \<and>
   (\<not> use_google_tts s \<longrightarrow>
      text_to_speech s google_ok gtts_ok t emotion = gtts_fallback s gtts_ok t [] \<and>
      fst (snd (gtts_fallback s gtts_ok t [])) = s \<and>
      snd (snd (gtts_fallback s gtts_ok t [])) = [GTTS t gtts_ok]) \<and>
   (\<not> use_google_tts s \<longrightarrow>
      \<not> use_google_tts (state_after (session ucd dediac s scs con)) \<and>
      (\<forall>e \<in> set (trace_of (session ucd dediac s scs con)). \<not> is_google e)) \<and>
   (\<forall>before req after.
      trace_of (session ucd dediac s scs con) = before @ GoogleTTS req False # after \<longrightarrow>
      \<not> use_google_tts (state_after (session ucd dediac s scs con)) \<and>
      (\<forall>e \<in> set after. \<not> is_google e))"
proof (intro conjI impI allI)
  assume "use_google_tts s \<and> tts_client s \<and> \<not> google_ok"
  then show "\<not> use_google_tts (fst (snd (text_to_speech s google_ok gtts_ok t emotion)))"
    by (simp add: text_to_speech_def gtts_fallback_def)
next
  assume "\<not> use_google_tts s"
  then show "text_to_speech s google_ok gtts_ok t emotion = gtts_fallback s gtts_ok t []"
    by (simp add: text_to_speech_def)
next
  show "fst (snd (gtts_fallback s gtts_ok t [])) = s"
    by (simp add: gtts_fallback_def)
next
  show "snd (snd (gtts_fallback s gtts_ok t [])) = [GTTS t gtts_ok]"
    by (simp add: gtts_fallback_def)
next
  assume off: "\<not> use_google_tts s"
  obtain st s' con' tr where r: "session ucd dediac s scs con = (st, s', con', tr)"
    by (cases "session ucd dediac s scs con") auto
  from session_google_off [OF r off]
  show "\<not> use_google_tts (state_after (session ucd dediac s scs con))"
    and "\<forall>e \<in> set (trace_of (session ucd dediac s scs con)). \<not> is_google e"
    by (simp_all add: r state_after_def trace_of_def filter_empty_conv)
next
  fix before req after
  assume tr: "trace_of (session ucd dediac s scs con) = before @ GoogleTTS req False # after"
  obtain st s' con' tr where r: "session ucd dediac s scs con = (st, s', con', tr)"
    by (cases "session ucd dediac s scs con") auto
  with tr have "tr = before @ GoogleTTS req False # after" by (simp add: trace_of_def)
  from session_google_failed [OF r this]
  show "\<not> use_google_tts (state_after (session ucd dediac s scs con))"
    and "\<forall>e \<in> set after. \<not> is_google e"
    by (simp_all add: r state_after_def filter_empty_conv)
qed

text \<open>
  A run of two turns: in the first the Google backend fails and gTTS takes over, in the
  second the Google backend would work and is not called. A run that starts with the
  flag cleared never calls it.
\<close>

theorem google_tts_monotonic_degradation_witness:
  "use_google_tts (init True True) \<and> tts_client (init True True) \<and>
   \<not> use_google_tts (fst (snd (text_to_speech (init True True) False True [] (ascii ''neutral'')))) \<and>
   session ucd_id dediac_ar (init True True)
      [sample_turn True [0x645, 0x634] False True, sample_turn True [0x645, 0x634] True True]
      [Typed (ascii ''y''), Typed (ascii ''y'')] =
     (Looping, \<lparr>use_google_tts = False, tts_client = True, feedback_db = []\<rparr>, [],
      [RecordAudio True, Transcribe, UserVoice [0x645, 0x634] (ascii ''egyptian''),
       Classify [0x645, 0x634]] @
      GoogleTTS (google_request neutral_reply (ascii ''neutral'')) False #
      [GTTS neutral_reply True, SfRead (Some (ascii ''response.mp3'')), Play, Prompt WasGood,
       RecordAudio True, Transcribe, UserVoice [0x645, 0x634] (ascii ''egyptian''),
       Classify [0x645, 0x634],
       GTTS neutral_reply True, SfRead (Some (ascii ''response.mp3'')), Play, Prompt WasGood]) \<and>
   \<not> use_google_tts (init False True) \<and>
   trace_of (session ucd_id dediac_ar (init False True)
      [sample_turn True [0x645, 0x634] True True] [Typed (ascii ''y'')]) =
     [RecordAudio True, Transcribe, UserVoice [0x645, 0x634] (ascii ''egyptian''),
      Classify [0x645, 0x634],
      GTTS neutral_reply True, SfRead (Some (ascii ''response.mp3'')), Play, Prompt WasGood]"
  using google_tts_monotonic_degradation [of "init True True" False True "[]" "ascii ''neutral''"
      ucd_id dediac_ar
      "[sample_turn True [0x645, 0x634] False True, sample_turn True [0x645, 0x634] True True]"
      "[Typed (ascii ''y''), Typed (ascii ''y'')]"]
    google_tts_monotonic_degradation [of "init False True" True True "[]" "ascii ''neutral''"
      ucd_id dediac_ar "[sample_turn True [0x645, 0x634] True True]" "[Typed (ascii ''y'')]"]
  by (simp add: eval_defs)

section \<open>Feedback: theorems\<close>

lemma get_feedback_db:
  "get_feedback ucd s clock t response con = (st, s', con', ev) \<Longrightarrow>
   \<exists>added. feedback_db s' = feedback_db s @ added \<and> length added \<le> 1"
  by (auto simp: get_feedback_def py_input_def Let_def save_feedback_def stopped_def
        split: list.splits console_event.splits if_splits)

lemma text_to_speech_db:
  "text_to_speech s g f t emotion = (r, s', ev) \<Longrightarrow> feedback_db s' = feedback_db s"
  by (auto simp: text_to_speech_def gtts_fallback_def split: if_splits)

lemma respond_db:
  assumes "respond ucd s sc t con = (st, s', con', ev)"
  shows "\<exists>added. feedback_db s' = feedback_db s @ added \<and> length added \<le> 1"
proof (cases "generate_response t (sentiment_label sc)")
  case (Inl e)
  with assms show ?thesis by (auto simp: respond_def Let_def)
next
  case (Inr response)
  obtain r s1 ev1 where tts:
    "text_to_speech s (google_works sc) (gtts_works sc) response (sentiment_label sc) = (r, s1, ev1)"
    by (cases "text_to_speech s (google_works sc) (gtts_works sc) response (sentiment_label sc)") auto
  note d = text_to_speech_db [OF tts]
  show ?thesis
  proof (cases "sf_read r")
    case (Inl e)
    with assms \<open>generate_response t (sentiment_label sc) = Inr response\<close> tts have "s' = s1"
      by (auto simp: respond_def Let_def)
    with d show ?thesis by simp
  next
    case (Inr audio)
    obtain st2 s2 con2 ev2 where fb:
      "get_feedback ucd s1 (clock_now sc) t response con = (st2, s2, con2, ev2)"
      by (cases "get_feedback ucd s1 (clock_now sc) t response con") auto
    from assms \<open>generate_response t (sentiment_label sc) = Inr response\<close> tts Inr fb
    have "s' = s2" by (auto simp: respond_def Let_def)
    with get_feedback_db [OF fb] d show ?thesis by simp
  qed
qed

lemma turn_db:
  assumes "turn ucd dediac s sc con = (st, s', con', ev)"
  shows "\<exists>added. feedback_db s' = feedback_db s @ added \<and> length added \<le> 1"
proof (cases "truthy (record_audio (mic_works sc))")
  case True
  obtain st2 s2 con2 ev2 where r: "respond ucd s sc (dediac (whisper_text sc)) con = (st2, s2, con2, ev2)"
    by (cases "respond ucd s sc (dediac (whisper_text sc)) con") auto
  with assms True have "s' = s2"
    by (auto simp: turn_def Let_def speech_to_text_def)
  with respond_db [OF r] show ?thesis by simp
next
  case False
  obtain r con1 ev1 where gti: "get_text_input ucd con = (r, con1, ev1)"
    by (cases "get_text_input ucd con") auto
  show ?thesis
  proof (cases r)
    case (Returns p)
    obtain a d where p: "p = (a, d)" by (cases p) auto
    show ?thesis
    proof (cases a)
      case None
      with assms False gti Returns p have "s' = s" by (auto simp: turn_def Let_def)
      then show ?thesis by simp
    next
      case (Some t)
      obtain st2 s2 con2 ev2 where r2: "respond ucd s sc t con1 = (st2, s2, con2, ev2)"
        by (cases "respond ucd s sc t con1") auto
      with assms False gti Returns p Some have "s' = s2" by (auto simp: turn_def Let_def)
      with respond_db [OF r2] show ?thesis by simp
    qed
  next
    case (Raises e)
    with assms False gti have "s' = s" by (auto simp: turn_def Let_def)
    then show ?thesis by simp
  next
    case Blocks
    with assms False gti have "s' = s" by (auto simp: turn_def Let_def)
    then show ?thesis by simp
  qed
qed

lemma session_db:
  "session ucd dediac s scs con = (st, s', con', tr) \<Longrightarrow>
   \<exists>added. feedback_db s' = feedback_db s @ added"
proof (induction scs arbitrary: s con st s' con' tr)
  case Nil
  then show ?case by simp
next
  case (Cons sc scs)
  from session_step [OF Cons.prems] obtain st1 s1 con1 ev where
    t: "turn ucd dediac s sc con = (st1, s1, con1, ev)" and
    c: "(st1 = Looping \<and> (\<exists>ev2. session ucd dediac s1 scs con1 = (st, s', con', ev2) \<and> tr = ev @ ev2)) \<or>
      (st1 = Interrupted \<and> st = Interrupted \<and> s' = s1 \<and> con' = con1 \<and>
         tr = ev @ [Report (length (feedback_db s1))]) \<or>
      (st1 \<noteq> Looping \<and> st1 \<noteq> Interrupted \<and> st = st1 \<and> s' = s1 \<and> con' = con1 \<and> tr = ev)"
    by blast
  from turn_db [OF t] obtain a1 where a1: "feedback_db s1 = feedback_db s @ a1" by blast
  from c show ?case
  proof (elim disjE conjE exE)
    fix ev2
    assume "session ucd dediac s1 scs con1 = (st, s', con', ev2)"
    from Cons.IH [OF this] obtain a2 where "feedback_db s' = feedback_db s1 @ a2" by blast
    with a1 have "feedback_db s' = feedback_db s @ (a1 @ a2)" by simp
    then show ?thesis by blast
  next
    assume "s' = s1" "tr = ev @ [Report (length (feedback_db s1))]"
    with a1 show ?thesis by blast
  next
    assume "s' = s1" "tr = ev"
    with a1 show ?thesis by blast
  qed
qed

text \<open>
  Claim C7, as the spec states it, fails: the rating \<^verbatim>\<open>Y\<close> is not the string \<^verbatim>\<open>'y'\<close>,
  yet the turn reaches the feedback prompt, asks for no correction and appends no
  record, because the rating is lower-cased before it is compared.
\<close>

theorem feedback_growth_counterexample:
  "ascii ''Y'' \<noteq> ascii ''y'' \<and>
   fst (turn ucd_id dediac_ar (init True True) (sample_turn True [0x645, 0x634] True True)
      [Typed (ascii ''Y''), Typed (ascii ''a correction'')]) = Looping \<and>
   Prompt WasGood \<in> set (trace_of (turn ucd_id dediac_ar (init True True)
      (sample_turn True [0x645, 0x634] True True)
      [Typed (ascii ''Y''), Typed (ascii ''a correction'')])) \<and>
   feedback_db (state_after (turn ucd_id dediac_ar (init True True)
      (sample_turn True [0x645, 0x634] True True)
      [Typed (ascii ''Y''), Typed (ascii ''a correction'')])) = feedback_db (init True True)"
  by (simp add: eval_defs)

text \<open>
  Claim C7, amended. In a turn that has a reply and a synthesized file and so reaches the
  feedback prompt: when the rating line, lower-cased, is not \<^verbatim>\<open>'y'\<close> and a correction
  line is read, the feedback sequence grows by exactly one record, made of the clock of
  the turn, the text of the turn, the reply and the correction; when the rating line
  lower-cases to \<^verbatim>\<open>'y'\<close>, the sequence stays as it is. Whatever a turn does, the old
  sequence is a prefix of the new one and at most one record is added; over a whole run
  the old sequence is a prefix of the new one: no record is removed or changed.
\<close>

theorem feedback_growth:
  "(generate_response t (sentiment_label sc) = Inr response \<and>
    text_to_speech s (google_works sc) (gtts_works sc) response (sentiment_label sc) =
      (Some path, s1, ev1) \<longrightarrow>
      (str_lower ucd rating \<noteq> ascii ''y'' \<longrightarrow>
         fst (respond ucd s sc t (Typed rating # Typed correction # con)) = Looping \<and>
         feedback_db (state_after (respond ucd s sc t (Typed rating # Typed correction # con))) =
           feedback_db s @
             [\<lparr>fb_timestamp = clock_now sc, fb_input = t, fb_response = response,
               fb_correction = correction\<rparr>]) \<and>
      (str_lower ucd rating = ascii ''y'' \<longrightarrow>
         fst (respond ucd s sc t (Typed rating # con)) = Looping \<and>
         feedback_db (state_after (respond ucd s sc t (Typed rating # con))) = feedback_db s)) \<and>
   (\<exists>added. feedback_db (state_after (turn ucd dediac s sc con)) = feedback_db s @ added \<and>
      length added \<le> 1) \<and>
   (\<exists>added. feedback_db (state_after (session ucd dediac s scs con)) = feedback_db s @ added)"
proof (intro conjI impI)
  assume a: "generate_response t (sentiment_label sc) = Inr response \<and>
    text_to_speech s (google_works sc) (gtts_works sc) response (sentiment_label sc) =
      (Some path, s1, ev1)"
  then have db: "feedback_db s1 = feedback_db s"
    using text_to_speech_db by blast
  {
    assume "str_lower ucd rating \<noteq> ascii ''y''"
    with a db show "fst (respond ucd s sc t (Typed rating # Typed correction # con)) = Looping"
      and "feedback_db (state_after (respond ucd s sc t (Typed rating # Typed correction # con))) =
           feedback_db s @
             [\<lparr>fb_timestamp = clock_now sc, fb_input = t, fb_response = response,
               fb_correction = correction\<rparr>]"
      by (simp_all add: respond_def get_feedback_def py_input_def sf_read_def Let_def
            save_feedback_def state_after_def)
  }
  {
    assume "str_lower ucd rating = ascii ''y''"
    with a db show "fst (respond ucd s sc t (Typed rating # con)) = Looping"
      and "feedback_db (state_after (respond ucd s sc t (Typed rating # con))) = feedback_db s"
      by (simp_all add: respond_def get_feedback_def py_input_def sf_read_def Let_def
            state_after_def)
  }
next
  obtain st s' con' ev where r: "turn ucd dediac s sc con = (st, s', con', ev)"
    by (cases "turn ucd dediac s sc con") auto
  from turn_db [OF r]
  show "\<exists>added. feedback_db (state_after (turn ucd dediac s sc con)) = feedback_db s @ added \<and>
      length added \<le> 1"
    by (simp add: r state_after_def)
next
  obtain st s' con' tr where r: "session ucd dediac s scs con = (st, s', con', tr)"
    by (cases "session ucd dediac s scs con") auto
  from session_db [OF r]
  show "\<exists>added. feedback_db (state_after (session ucd dediac s scs con)) = feedback_db s @ added"
    by (simp add: r state_after_def)
qed

text \<open>
  The rating \<^verbatim>\<open>No\<close> with the correction \<^verbatim>\<open>better\<close> adds one record; the rating
  \<^verbatim>\<open>Y\<close> adds none.
\<close>

theorem feedback_growth_witness:
  "generate_response (ascii ''hi'') (sentiment_label (sample_turn True [] True True)) =
     Inr neutral_reply \<and>
   text_to_speech (init False False) True True neutral_reply (ascii ''neutral'') =
     (Some (ascii ''response.mp3''), init False False, [GTTS neutral_reply True]) \<and>
   str_lower ucd_id (ascii ''No'') \<noteq> ascii ''y'' \<and>
   fst (respond ucd_id (init False False) (sample_turn True [] True True) (ascii ''hi'')
          [Typed (ascii ''No''), Typed (ascii ''better'')]) = Looping \<and>
   feedback_db (state_after (respond ucd_id (init False False) (sample_turn True [] True True)
       (ascii ''hi'') [Typed (ascii ''No''), Typed (ascii ''better'')])) =
     [\<lparr>fb_timestamp = 1, fb_input = ascii ''hi'', fb_response = neutral_reply,
       fb_correction = ascii ''better''\<rparr>] \<and>
   str_lower ucd_id (ascii ''Y'') = ascii ''y'' \<and>
   fst (respond ucd_id (init False False) (sample_turn True [] True True) (ascii ''hi'')
          [Typed (ascii ''Y''), Typed (ascii ''better'')]) = Looping \<and>
   feedback_db (state_after (respond ucd_id (init False False) (sample_turn True [] True True)
       (ascii ''hi'') [Typed (ascii ''Y''), Typed (ascii ''better'')])) = []"
  using feedback_growth [of "ascii ''hi''" "sample_turn True [] True True" neutral_reply
      "init False False" "ascii ''response.mp3''" "init False False" "[GTTS neutral_reply True]"
      ucd_id "ascii ''No''" "ascii ''better''" "[]" dediac_ar "[]"]
    feedback_growth [of "ascii ''hi''" "sample_turn True [] True True" neutral_reply
      "init False False" "ascii ''response.mp3''" "init False False" "[GTTS neutral_reply True]"
      ucd_id "ascii ''Y''" "ascii ''better''" "[Typed (ascii ''better'')]" dediac_ar "[]"]
  by (simp add: eval_defs)

section \<open>Speech synthesis: theorems\<close>

text \<open>
  Claim C2 is not what the code does. When the Google backend is not used or fails and
  gTTS fails too, \<open>text_to_speech\<close> returns \<^verbatim>\<open>None\<close>, as the claim says; but the loop
  does not skip the playback: it passes \<^verbatim>\<open>None\<close> to \<^verbatim>\<open>sf.read\<close>, which raises
  \<^verbatim>\<open>TypeError\<close>. The last event of the turn is that call, nothing is played, the
  feedback prompt is not reached, and the run ends with the exception.
\<close>

theorem both_backends_fail_no_skip:
  "generate_response t (sentiment_label sc) = Inr response \<and> \<not> gtts_works sc \<and>
   \<not> (use_google_tts s \<and> tts_client s \<and> google_works sc) \<longrightarrow>
     fst (text_to_speech s (google_works sc) (gtts_works sc) response (sentiment_label sc)) = None \<and>
     fst (respond ucd s sc t con) = Crashed TypeError \<and>
     last (trace_of (respond ucd s sc t con)) = SfRead None \<and>
     Play \<notin> set (trace_of (respond ucd s sc t con)) \<and>
     Prompt WasGood \<notin> set (trace_of (respond ucd s sc t con)) \<and>
     (mic_works sc \<and> t = dediac (whisper_text sc) \<longrightarrow>
        fst (session ucd dediac s (sc # scs) con) = Crashed TypeError \<and>
        Prompt WasGood \<notin> set (trace_of (session ucd dediac s (sc # scs) con)))"
proof (intro impI)
  assume a: "generate_response t (sentiment_label sc) = Inr response \<and> \<not> gtts_works sc \<and>
   \<not> (use_google_tts s \<and> tts_client s \<and> google_works sc)"
  then have tts: "fst (text_to_speech s (google_works sc) (gtts_works sc) response (sentiment_label sc)) = None"
    by (auto simp: text_to_speech_def gtts_fallback_def)
  from a have r: "fst (respond ucd s sc t con) = Crashed TypeError \<and>
     last (trace_of (respond ucd s sc t con)) = SfRead None \<and>
     Play \<notin> set (trace_of (respond ucd s sc t con)) \<and>
     Prompt WasGood \<notin> set (trace_of (respond ucd s sc t con))"
    by (auto simp: respond_def text_to_speech_def gtts_fallback_def sf_read_def stopped_def Let_def
          trace_of_def)
  have "fst (session ucd dediac s (sc # scs) con) = Crashed TypeError \<and>
        Prompt WasGood \<notin> set (trace_of (session ucd dediac s (sc # scs) con))"
    if m: "mic_works sc \<and> t = dediac (whisper_text sc)"
  proof -
    obtain st s' con' ev where rr: "respond ucd s sc t con = (st, s', con', ev)"
      by (cases "respond ucd s sc t con") auto
    with r have "st = Crashed TypeError" "Prompt WasGood \<notin> set ev" by (simp_all add: trace_of_def)
    with m rr show ?thesis by (simp add: turn_mic trace_of_def)
  qed
  with tts r show "fst (text_to_speech s (google_works sc) (gtts_works sc) response (sentiment_label sc)) = None \<and>
     fst (respond ucd s sc t con) = Crashed TypeError \<and>
     last (trace_of (respond ucd s sc t con)) = SfRead None \<and>
     Play \<notin> set (trace_of (respond ucd s sc t con)) \<and>
     Prompt WasGood \<notin> set (trace_of (respond ucd s sc t con)) \<and>
     (mic_works sc \<and> t = dediac (whisper_text sc) \<longrightarrow>
        fst (session ucd dediac s (sc # scs) con) = Crashed TypeError \<and>
        Prompt WasGood \<notin> set (trace_of (session ucd dediac s (sc # scs) con)))"
    by blast
qed

text \<open>
  A run whose first turn has no Google client and a failing gTTS: it ends with
  \<^verbatim>\<open>TypeError\<close> after the call of \<^verbatim>\<open>sf.read\<close>, and the rating on the console is not
  read.
\<close>

theorem both_backends_fail_no_skip_witness:
  "generate_response [0x645, 0x634] (sentiment_label (sample_turn True [0x645, 0x634] False False)) =
     Inr neutral_reply \<and>
   \<not> gtts_works (sample_turn True [0x645, 0x634] False False) \<and>
   session ucd_id dediac_ar (init False False) [sample_turn True [0x645, 0x634] False False]
     [Typed (ascii ''y'')] =
   (Crashed TypeError, init False False, [Typed (ascii ''y'')],
    [RecordAudio True, Transcribe, UserVoice [0x645, 0x634] (ascii ''egyptian''),
     Classify [0x645, 0x634], GTTS neutral_reply False, SfRead None])"
  using both_backends_fail_no_skip [of "[0x645, 0x634]"
      "sample_turn True [0x645, 0x634] False False" neutral_reply
      "init False False" ucd_id "[Typed (ascii ''y'')]" dediac_ar "[]"]
  by (simp add: eval_defs)

lemma generate_response_keys:
  "generate_response t emotion = Inr response \<Longrightarrow>
   emotion \<in> {ascii ''positive'', ascii ''negative'', ascii ''neutral''}"
  by (auto simp: generate_response_def responses_def split: option.splits if_splits)

lemma google_request_prosody:
  "emotion \<in> {ascii ''positive'', ascii ''negative'', ascii ''neutral''} \<Longrightarrow>
   speaking_rate (google_request t emotion) = 1 \<and> pitch (google_request t emotion) = 0"
  by (auto simp: google_request_def ascii_def)

lemma text_to_speech_request:
  "text_to_speech s g f t emotion = (r, s', ev) \<Longrightarrow> GoogleTTS req ok \<in> set ev \<Longrightarrow>
   req = google_request t emotion"
  by (auto simp: text_to_speech_def gtts_fallback_def split: if_splits)

lemma get_feedback_events:
  "get_feedback ucd s clock t response con = (st, s', con', ev) \<Longrightarrow> GoogleTTS req ok \<notin> set ev"
  using get_feedback_google [of ucd s clock t response con st s' con' ev]
  by (auto simp: filter_empty_conv)

lemma respond_request:
  assumes "respond ucd s sc t con = (st, s', con', ev)" and "GoogleTTS req ok \<in> set ev"
  shows "speaking_rate req = 1 \<and> pitch req = 0"
proof (cases "generate_response t (sentiment_label sc)")
  case (Inl e)
  with assms show ?thesis by (auto simp: respond_def Let_def)
next
  case (Inr response)
  note keys = generate_response_keys [OF Inr]
  obtain r s1 ev1 where tts:
    "text_to_speech s (google_works sc) (gtts_works sc) response (sentiment_label sc) = (r, s1, ev1)"
    by (cases "text_to_speech s (google_works sc) (gtts_works sc) response (sentiment_label sc)") auto
  have "GoogleTTS req ok \<in> set ev1"
  proof (cases "sf_read r")
    case (Inl e)
    with assms \<open>generate_response t (sentiment_label sc) = Inr response\<close> tts show ?thesis
      by (auto simp: respond_def Let_def)
  next
    case (Inr audio)
    obtain st2 s2 con2 ev2 where fb:
      "get_feedback ucd s1 (clock_now sc) t response con = (st2, s2, con2, ev2)"
      by (cases "get_feedback ucd s1 (clock_now sc) t response con") auto
    with assms \<open>generate_response t (sentiment_label sc) = Inr response\<close> tts Inr
      get_feedback_events [OF fb, of req ok]
    show ?thesis by (auto simp: respond_def Let_def)
  qed
  from text_to_speech_request [OF tts this] google_request_prosody [OF keys]
  show ?thesis by simp
qed

lemma get_text_input_events:
  "get_text_input ucd con = (r, con', ev) \<Longrightarrow> GoogleTTS req ok \<notin> set ev"
  using get_text_input_no_google [of ucd con r con' ev]
  by (auto simp: filter_empty_conv)

lemma turn_request:
  assumes "turn ucd dediac s sc con = (st, s', con', ev)" and "GoogleTTS req ok \<in> set ev"
  shows "speaking_rate req = 1 \<and> pitch req = 0"
proof (cases "truthy (record_audio (mic_works sc))")
  case True
  obtain st2 s2 con2 ev2 where r: "respond ucd s sc (dediac (whisper_text sc)) con = (st2, s2, con2, ev2)"
    by (cases "respond ucd s sc (dediac (whisper_text sc)) con") auto
  with assms True have "GoogleTTS req ok \<in> set ev2"
    by (auto simp: turn_def Let_def speech_to_text_def)
  from respond_request [OF r this] show ?thesis .
next
  case False
  obtain r con1 ev1 where gti: "get_text_input ucd con = (r, con1, ev1)"
    by (cases "get_text_input ucd con") auto
  note n = get_text_input_events [OF gti, of req ok]
  show ?thesis
  proof (cases r)
    case (Returns p)
    obtain a d where p: "p = (a, d)" by (cases p) auto
    show ?thesis
    proof (cases a)
      case None
      with assms False gti Returns p n show ?thesis by (auto simp: turn_def Let_def)
    next
      case (Some t)
      obtain st2 s2 con2 ev2 where r2: "respond ucd s sc t con1 = (st2, s2, con2, ev2)"
        by (cases "respond ucd s sc t con1") auto
      with assms False gti Returns p Some n have "GoogleTTS req ok \<in> set ev2"
        by (auto simp: turn_def Let_def)
      from respond_request [OF r2 this] show ?thesis .
    qed
  next
    case (Raises e)
    with assms False gti n show ?thesis by (auto simp: turn_def Let_def)
  next
    case Blocks
    with assms False gti n show ?thesis by (auto simp: turn_def Let_def)
  qed
qed

lemma session_request:
  "session ucd dediac s scs con = (st, s', con', tr) \<Longrightarrow> GoogleTTS req ok \<in> set tr \<Longrightarrow>
   speaking_rate req = 1 \<and> pitch req = 0"
proof (induction scs arbitrary: s con st s' con' tr)
  case Nil
  then show ?case by simp
next
  case (Cons sc scs)
  from session_step [OF Cons.prems(1)] obtain st1 s1 con1 ev where
    t: "turn ucd dediac s sc con = (st1, s1, con1, ev)" and
    c: "(st1 = Looping \<and> (\<exists>ev2. session ucd dediac s1 scs con1 = (st, s', con', ev2) \<and> tr = ev @ ev2)) \<or>
      (st1 = Interrupted \<and> st = Interrupted \<and> s' = s1 \<and> con' = con1 \<and>
         tr = ev @ [Report (length (feedback_db s1))]) \<or>
      (st1 \<noteq> Looping \<and> st1 \<noteq> Interrupted \<and> st = st1 \<and> s' = s1 \<and> con' = con1 \<and> tr = ev)"
    by blast
  from c show ?case
  proof (elim disjE conjE exE)
    fix ev2
    assume rest: "session ucd dediac s1 scs con1 = (st, s', con', ev2)" and "tr = ev @ ev2"
    with Cons.prems(2) have "GoogleTTS req ok \<in> set ev \<or> GoogleTTS req ok \<in> set ev2" by simp
    then show ?thesis using turn_request [OF t] Cons.IH [OF rest] by blast
  next
    assume "tr = ev @ [Report (length (feedback_db s1))]"
    with Cons.prems(2) have "GoogleTTS req ok \<in> set ev" by simp
    from turn_request [OF t this] show ?thesis .
  next
    assume "tr = ev"
    with Cons.prems(2) have "GoogleTTS req ok \<in> set ev" by simp
    from turn_request [OF t this] show ?thesis .
  qed
qed

text \<open>
  Claim C8 is not what the code does. The voice distinguishes \<^verbatim>\<open>'positive'\<close> from the
  other emotions, but the speaking rate and the pitch are compared with the labels
  \<^verbatim>\<open>'happy'\<close> and \<^verbatim>\<open>'excited'\<close>, which are not keys of the response table: for the
  emotions \<^verbatim>\<open>'positive'\<close>, \<^verbatim>\<open>'negative'\<close> and \<^verbatim>\<open>'neutral'\<close> the rate is 1 and the pitch
  is 0, and every request that a run sends to the Google backend has the rate 1 and the
  pitch 0, since \<open>generate_response\<close> has already raised for any other label.
\<close>

theorem prosody_never_varies:
  "(emotion \<in> {ascii ''positive'', ascii ''negative'', ascii ''neutral''} \<longrightarrow>
      speaking_rate (google_request t emotion) = 1 \<and> pitch (google_request t emotion) = 0 \<and>
      (voice_name (google_request t emotion) = ascii ''ar-XA-Standard-B'') =
        (emotion = ascii ''positive'')) \<and>
   (GoogleTTS req ok \<in> set (trace_of (session ucd dediac s scs con)) \<longrightarrow>
      speaking_rate req = 1 \<and> pitch req = 0)"
proof (intro conjI impI)
  assume e: "emotion \<in> {ascii ''positive'', ascii ''negative'', ascii ''neutral''}"
  from google_request_prosody [OF this]
  show "speaking_rate (google_request t emotion) = 1" and "pitch (google_request t emotion) = 0"
    by simp_all
  show "(voice_name (google_request t emotion) = ascii ''ar-XA-Standard-B'') =
        (emotion = ascii ''positive'')"
    by (simp add: google_request_def ascii_def)
next
  assume g: "GoogleTTS req ok \<in> set (trace_of (session ucd dediac s scs con))"
  obtain st s' con' tr where r: "session ucd dediac s scs con = (st, s', con', tr)"
    by (cases "session ucd dediac s scs con") auto
  with g have "GoogleTTS req ok \<in> set tr" by (simp add: trace_of_def)
  from session_request [OF r this]
  show "speaking_rate req = 1" and "pitch req = 0" by simp_all
qed

text \<open>
  The requests for the three emotions of the table; the label \<^verbatim>\<open>'happy'\<close> would change
  the rate, but \<open>generate_response\<close> raises \<^verbatim>\<open>KeyError\<close> for it.
\<close>

theorem prosody_never_varies_witness:
  "google_request [] (ascii ''positive'') =
     \<lparr>req_text = [], voice_name = ascii ''ar-XA-Standard-B'', speaking_rate = 1, pitch = 0\<rparr> \<and>
   google_request [] (ascii ''negative'') =
     \<lparr>req_text = [], voice_name = ascii ''ar-XA-Standard-D'', speaking_rate = 1, pitch = 0\<rparr> \<and>
   google_request [] (ascii ''neutral'') =
     \<lparr>req_text = [], voice_name = ascii ''ar-XA-Standard-D'', speaking_rate = 1, pitch = 0\<rparr> \<and>
   google_request [] (ascii ''happy'') =
     \<lparr>req_text = [], voice_name = ascii ''ar-XA-Standard-D'', speaking_rate = 12 / 10, pitch = 0\<rparr> \<and>
   generate_response [] (ascii ''happy'') = Inl (KeyError (ascii ''happy''))"
  using prosody_never_varies [of "ascii ''positive''" "[]"]
    prosody_never_varies [of "ascii ''negative''" "[]"]
    prosody_never_varies [of "ascii ''neutral''" "[]"]
  by (simp add: google_request_def generate_response_def responses_def ascii_def)

end
